theory Spec2Isabelle
  imports Main "HOL-Library.AList"
begin

section \<open>Text: Python \<open>str\<close> operations and the regular expressions of the source\<close>

text \<open>
  A Python \<open>str\<close> is modelled by a HOL \<open>string\<close> holding its UTF-8 bytes. Substring tests
  and \<open>str.split()\<close> are modelled for every text. The tests on single characters
  (\<open>is_space\<close> for \<open>str.strip\<close> and \<open>\s\<close>, the case mappings, \<open>re.IGNORECASE\<close> and \<open>\w\<close>)
  are those of CPython on the ASCII code points, the bytes below 128; bytes from 128 (the
  pieces of a code point beyond ASCII) are neither whitespace, nor cased, nor word
  characters there. That part of the model is exact for ASCII text, and for other text as
  far as its characters beyond ASCII are not Unicode whitespace, have no case mapping and
  are not read by \<open>\w\<close>.
\<close>

definition is_space :: "char \<Rightarrow> bool" where
  \<comment> \<open>\<open>str.strip\<close> and the class \<open>\s\<close> on ASCII: the code points 9-13, 28-31 and 32.\<close>
  "is_space c = (let n = (of_char c :: nat) in (9 \<le> n \<and> n \<le> 13) \<or> (28 \<le> n \<and> n \<le> 32))"

definition is_word :: "char \<Rightarrow> bool" where
  \<comment> \<open>the class \<open>\w\<close>: letters, digits and the underscore.\<close>
  "is_word c = (let n = (of_char c :: nat) in
     (48 \<le> n \<and> n \<le> 57) \<or> (65 \<le> n \<and> n \<le> 90) \<or> n = 95 \<or> (97 \<le> n \<and> n \<le> 122))"

definition lower_char :: "char \<Rightarrow> char" where
  "lower_char c = (let n = (of_char c :: nat) in
     if 65 \<le> n \<and> n \<le> 90 then char_of (n + 32) else c)"

definition upper_char :: "char \<Rightarrow> char" where
  "upper_char c = (let n = (of_char c :: nat) in
     if 97 \<le> n \<and> n \<le> 122 then char_of (n - 32) else c)"

definition lower :: "string \<Rightarrow> string" where
  "lower s = map lower_char s"

definition upper :: "string \<Rightarrow> string" where
  "upper s = map upper_char s"

definition strip :: "string \<Rightarrow> string" where
  "strip s = rev (dropWhile is_space (rev (dropWhile is_space s)))"

fun startswith :: "string \<Rightarrow> string \<Rightarrow> bool" where
  \<comment> \<open>\<open>s.startswith(p)\<close>, with the text first and the prefix second.\<close>
  "startswith s [] = True"
| "startswith [] (p # ps) = False"
| "startswith (c # cs) (p # ps) = (c = p \<and> startswith cs ps)"

fun contains :: "string \<Rightarrow> string \<Rightarrow> bool" where
  \<comment> \<open>\<open>p in s\<close>, with the text first and the searched piece second.\<close>
  "contains [] p = (p = [])"
| "contains (c # cs) p = (startswith (c # cs) p \<or> contains cs p)"

definition unicode_spaces :: "string list" where
  \<comment> \<open>the white space beyond ASCII, in UTF-8: U+0085, U+00A0, U+1680, U+2000 to U+200A,
      U+2028, U+2029, U+202F, U+205F and U+3000.\<close>
  "unicode_spaces =
     [ [CHR 0xC2, CHR 0x85], [CHR 0xC2, CHR 0xA0], [CHR 0xE1, CHR 0x9A, CHR 0x80],
       [CHR 0xE2, CHR 0x80, CHR 0x80], [CHR 0xE2, CHR 0x80, CHR 0x81], [CHR 0xE2, CHR 0x80, CHR 0x82],
       [CHR 0xE2, CHR 0x80, CHR 0x83], [CHR 0xE2, CHR 0x80, CHR 0x84], [CHR 0xE2, CHR 0x80, CHR 0x85],
       [CHR 0xE2, CHR 0x80, CHR 0x86], [CHR 0xE2, CHR 0x80, CHR 0x87], [CHR 0xE2, CHR 0x80, CHR 0x88],
       [CHR 0xE2, CHR 0x80, CHR 0x89], [CHR 0xE2, CHR 0x80, CHR 0x8A], [CHR 0xE2, CHR 0x80, CHR 0xA8],
       [CHR 0xE2, CHR 0x80, CHR 0xA9], [CHR 0xE2, CHR 0x80, CHR 0xAF], [CHR 0xE2, CHR 0x81, CHR 0x9F],
       [CHR 0xE3, CHR 0x80, CHR 0x80] ]"

definition space_len :: "string \<Rightarrow> nat" where
  \<comment> \<open>the number of bytes of the white space character at the start of a text, 0 if the
      text does not start with one.\<close>
  "space_len s =
     (case s of
        [] \<Rightarrow> 0
      | c # cs \<Rightarrow>
          if is_space c then 1
          else (case find (startswith s) unicode_spaces of None \<Rightarrow> 0 | Some u \<Rightarrow> length u))"

fun split_acc :: "string \<Rightarrow> nat \<Rightarrow> string \<Rightarrow> string list" where
  \<comment> \<open>\<open>str.split()\<close> without arguments: the maximal runs of non-whitespace, in order. The
      first argument is the run being read, reversed; the second counts the bytes still
      to pass of a white space character.\<close>
  "split_acc w skip [] = (if w = [] then [] else [rev w])"
| "split_acc w skip (c # cs) =
     (if skip > 0 then split_acc w (skip - 1) cs
      else
        let n = space_len (c # cs) in
        if n > 0 then (if w = [] then split_acc [] (n - 1) cs else rev w # split_acc [] (n - 1) cs)
        else split_acc (c # w) 0 cs)"

definition split :: "string \<Rightarrow> string list" where
  "split s = split_acc [] 0 s"

subsection \<open>Regular expressions\<close>

text \<open>
  Every pattern of the source is a sequence of single-character atoms, each taken once or
  under a greedy \<open>*\<close> or \<open>+\<close>. \<open>rx_ends\<close> is the backtracking matcher of \<open>re\<close>: it
  returns what is left of the text after each way the pattern can match at its start, in
  the order in which the matcher tries them (the longest repetition first). All patterns
  are compiled or used with \<open>re.IGNORECASE\<close>, and none with \<open>re.DOTALL\<close>.
\<close>

datatype atom = Ch char | Sp | Dot | Wd

datatype quant = One | Star | Plus

type_synonym pattern = "(atom \<times> quant) list"

fun atom_ok :: "atom \<Rightarrow> char \<Rightarrow> bool" where
  "atom_ok (Ch p) c = (lower_char c = lower_char p)"
| "atom_ok Sp c = is_space c"
| "atom_ok Dot c = (c \<noteq> CHR 0x0A)"
| "atom_ok Wd c = is_word c"

fun rx_ends :: "pattern \<Rightarrow> string \<Rightarrow> string list" where
  "rx_ends [] s = [s]"
| "rx_ends ((a, One) # p) [] = []"
| "rx_ends ((a, One) # p) (c # cs) = (if atom_ok a c then rx_ends p cs else [])"
| "rx_ends ((a, Star) # p) [] = rx_ends p []"
| "rx_ends ((a, Star) # p) (c # cs) =
     (if atom_ok a c then rx_ends ((a, Star) # p) cs else []) @ rx_ends p (c # cs)"
| "rx_ends ((a, Plus) # p) [] = []"
| "rx_ends ((a, Plus) # p) (c # cs) =
     (if atom_ok a c then rx_ends ((a, Star) # p) cs else [])"

definition rx_match :: "pattern \<Rightarrow> string \<Rightarrow> bool" where
  \<comment> \<open>\<open>pattern.match(s)\<close> read as a truth value.\<close>
  "rx_match p s = (rx_ends p s \<noteq> [])"

definition lit :: "string \<Rightarrow> pattern" where
  \<comment> \<open>a run of literal characters.\<close>
  "lit w = map (\<lambda>c. (Ch c, One)) w"

definition sp0 :: pattern where "sp0 = [(Sp, Star)]"
definition sp1 :: pattern where "sp1 = [(Sp, Plus)]"
definition dots :: pattern where "dots = [(Dot, Star)]"

fun first_group :: "pattern \<Rightarrow> pattern \<Rightarrow> string \<Rightarrow> string option" where
  \<comment> \<open>\<open>re.match\<close> at the start of the text of a pattern \<open>pre(grp)\<close> whose only group is at
      its end: the text of the group on the first way the matcher finds.\<close>
  "first_group pre grp s =
     (case concat (map (\<lambda>r. map (\<lambda>r'. take (length r - length r') r) (rx_ends grp r))
                       (rx_ends pre s)) of
        [] \<Rightarrow> None
      | g # _ \<Rightarrow> Some g)"

fun first_of :: "('a \<Rightarrow> 'b option) \<Rightarrow> 'a list \<Rightarrow> 'b option" where
  "first_of f [] = None"
| "first_of f (x # xs) = (case f x of Some y \<Rightarrow> Some y | None \<Rightarrow> first_of f xs)"

fun rx_search :: "(pattern \<times> pattern) list \<Rightarrow> string \<Rightarrow> string option" where
  \<comment> \<open>\<open>re.search(...).group(1)\<close>: the leftmost start at which one of the alternatives
      matches, the alternatives tried in order at each start. An optional group
      \<open>(?:X)?Y\<close> is the ordered alternation of \<open>XY\<close> and \<open>Y\<close>.\<close>
  "rx_search alts [] = first_of (\<lambda>(pre, grp). first_group pre grp []) alts"
| "rx_search alts (c # cs) =
     (case first_of (\<lambda>(pre, grp). first_group pre grp (c # cs)) alts of
        Some g \<Rightarrow> Some g
      | None \<Rightarrow> rx_search alts cs)"

section \<open>\<open>agent/simple_approval.py\<close>: classification of statements\<close>

definition dangerous_patterns :: "pattern list" where
  "dangerous_patterns =
    [ sp0 @ lit ''DROP'' @ sp1,
      sp0 @ lit ''DELETE'' @ sp1 @ lit ''FROM'' @ sp1,
      sp0 @ lit ''ALTER'' @ sp1 @ lit ''TABLE'' @ sp1,
      sp0 @ lit ''TRUNCATE'' @ sp1 @ lit ''TABLE'' @ sp1,
      sp0 @ lit ''UPDATE'' @ sp1 @ dots @ sp1 @ lit ''SET'' @ sp1 @ dots @ sp1 @ lit ''WHERE''
        @ sp1 @ lit ''1'' @ sp0 @ lit ''='' @ sp0 @ lit ''1'' ]"

definition safe_patterns :: "pattern list" where
  "safe_patterns =
    [ sp0 @ lit ''SELECT'' @ sp1,
      sp0 @ lit ''INSERT'' @ sp1 @ lit ''INTO'' @ sp1,
      sp0 @ lit ''CREATE'' @ sp1 @ lit ''TABLE'' @ sp1,
      sp0 @ lit ''SHOW'' @ sp1,
      sp0 @ lit ''DESCRIBE'' @ sp1 ]"

definition is_dangerous_operation :: "string \<Rightarrow> bool" where
  "is_dangerous_operation sql_query =
     (if sql_query = [] \<or> strip sql_query = [] then False
      else if list_ex (\<lambda>p. rx_match p sql_query) safe_patterns then False
      else if list_ex (\<lambda>p. rx_match p sql_query) dangerous_patterns then True
      else False)"

definition extract_table_name :: "string \<Rightarrow> string option" where
  \<comment> \<open>\<open>_extract_table_name\<close>: the first pattern, in order, that is found anywhere.\<close>
  "extract_table_name sql_query =
     first_of (\<lambda>alts. rx_search alts sql_query)
       [ [ (lit ''DROP'' @ sp1 @ lit ''TABLE'' @ sp1 @ lit ''IF'' @ sp1 @ lit ''EXISTS'' @ sp1,
            [(Wd, Plus)]),
           (lit ''DROP'' @ sp1 @ lit ''TABLE'' @ sp1, [(Wd, Plus)]) ],
         [ (lit ''DELETE'' @ sp1 @ lit ''FROM'' @ sp1, [(Wd, Plus)]) ],
         [ (lit ''ALTER'' @ sp1 @ lit ''TABLE'' @ sp1, [(Wd, Plus)]) ],
         [ (lit ''TRUNCATE'' @ sp1 @ lit ''TABLE'' @ sp1, [(Wd, Plus)]) ],
         [ (lit ''UPDATE'' @ sp1, [(Wd, Plus)]) ] ]"

record operation_info =
  oi_operation_type :: string
  oi_table_name :: "string option"
  oi_description :: string

definition get_operation_info :: "string \<Rightarrow> operation_info" where
  "get_operation_info sql_query =
     (let query_upper = strip (upper sql_query);
          operation_type =
            (if startswith query_upper ''DROP'' then ''DROP''
             else if startswith query_upper ''DELETE'' then ''DELETE''
             else if startswith query_upper ''ALTER'' then ''ALTER''
             else if startswith query_upper ''TRUNCATE'' then ''TRUNCATE''
             else if startswith query_upper ''UPDATE'' then ''UPDATE''
             else ''UNKNOWN'');
          table_name = extract_table_name sql_query;
          description = operation_type @ '' operation'' @
            (case table_name of
               None \<Rightarrow> []
             | Some t \<Rightarrow> if t = [] then [] else '' on table '' @ [CHR 0x27] @ t @ [CHR 0x27])
      in \<lparr> oi_operation_type = operation_type, oi_table_name = table_name,
           oi_description = description \<rparr>)"

section \<open>\<open>agent/simple_approval.py\<close>: the approval ledger\<close>

text \<open>
  Times are \<open>datetime\<close> values, counted here in microseconds as integers. The manager
  stores \<open>expires_at\<close> as ISO text written by \<open>isoformat\<close> and reads it back with
  \<open>fromisoformat\<close>, which returns the value written, so the text is represented by the
  time itself. \<open>datetime.now()\<close> and \<open>uuid.uuid4()\<close> are arguments of the operations
  that call them. The dictionary \<open>pending_approvals\<close> keeps its insertion order and is an
  association list with \<open>AList.update\<close> and \<open>AList.delete\<close>.
\<close>

datatype ApprovalStatus = PENDING | APPROVED | DENIED | EXPIRED

fun status_value :: "ApprovalStatus \<Rightarrow> string" where
  "status_value PENDING = ''pending''"
| "status_value APPROVED = ''approved''"
| "status_value DENIED = ''denied''"
| "status_value EXPIRED = ''expired''"

record approval =
  ap_id :: string
  ap_sql_query :: string
  ap_operation_type :: string
  ap_table_name :: "string option"
  ap_description :: string
  ap_status :: ApprovalStatus
  ap_created_at :: int
  ap_expires_at :: int
  ap_approved_at :: "int option"
  ap_denied_at :: "int option"
  ap_approved_by :: "string option"

record manager =
  pending_approvals :: "(string \<times> approval) list"
  timeout_seconds :: int

definition simple_approval_manager :: manager where
  \<comment> \<open>\<open>SimpleApprovalManager()\<close> with \<open>timeout_minutes = 5\<close>.\<close>
  "simple_approval_manager = \<lparr> pending_approvals = [], timeout_seconds = 5 * 60 \<rparr>"

definition is_expired :: "int \<Rightarrow> approval \<Rightarrow> bool" where
  "is_expired now a = (now > ap_expires_at a)"

definition set_approval :: "manager \<Rightarrow> string \<Rightarrow> approval \<Rightarrow> manager" where
  "set_approval m k a = m\<lparr> pending_approvals := AList.update k a (pending_approvals m) \<rparr>"

definition create_approval_request :: "manager \<Rightarrow> string \<Rightarrow> int \<Rightarrow> string \<Rightarrow> approval \<times> manager" where
  \<comment> \<open>\<open>approval_id\<close> is the fresh uuid and \<open>timestamp\<close> the clock; the result is the
      \<open>approval_request\<close> of the returned dictionary.\<close>
  "create_approval_request m approval_id timestamp sql_query =
     (let expires_at = timestamp + timeout_seconds m * 1000000;
          operation_info = get_operation_info sql_query;
          approval_request =
            \<lparr> ap_id = approval_id, ap_sql_query = sql_query,
              ap_operation_type = oi_operation_type operation_info,
              ap_table_name = oi_table_name operation_info,
              ap_description = oi_description operation_info,
              ap_status = PENDING, ap_created_at = timestamp, ap_expires_at = expires_at,
              ap_approved_at = None, ap_denied_at = None, ap_approved_by = None \<rparr>
      in (approval_request, set_approval m approval_id approval_request))"

datatype status_result =
    Status_not_found
  | Status_expired string
  | Status_of string ApprovalStatus bool approval

fun result_status :: "status_result \<Rightarrow> string" where
  \<comment> \<open>\<open>approval_status.get("status", "")\<close>\<close>
  "result_status Status_not_found = []"
| "result_status (Status_expired k) = status_value EXPIRED"
| "result_status (Status_of k s r a) = status_value s"

definition get_approval_status :: "manager \<Rightarrow> int \<Rightarrow> string \<Rightarrow> status_result \<times> manager" where
  "get_approval_status m now approval_id =
     (case map_of (pending_approvals m) approval_id of
        None \<Rightarrow> (Status_not_found, m)
      | Some a \<Rightarrow>
          if is_expired now a
          then (Status_expired approval_id, set_approval m approval_id (a\<lparr> ap_status := EXPIRED \<rparr>))
          else (Status_of approval_id (ap_status a) (ap_status a = PENDING) a, m))"

datatype decide_error = Not_found | Not_pending ApprovalStatus | Has_expired

datatype decide_ok = Approved_ok string string | Denied_ok string

definition approve_operation ::
  "manager \<Rightarrow> int \<Rightarrow> string \<Rightarrow> string \<Rightarrow> (decide_error + decide_ok) \<times> manager" where
  "approve_operation m now approval_id approved_by =
     (case map_of (pending_approvals m) approval_id of
        None \<Rightarrow> (Inl Not_found, m)
      | Some a \<Rightarrow>
          if ap_status a \<noteq> PENDING then (Inl (Not_pending (ap_status a)), m)
          else if is_expired now a
          then (Inl Has_expired, set_approval m approval_id (a\<lparr> ap_status := EXPIRED \<rparr>))
          else (Inr (Approved_ok approval_id (ap_sql_query a)),
                set_approval m approval_id
                  (a\<lparr> ap_status := APPROVED, ap_approved_at := Some now,
                      ap_approved_by := Some approved_by \<rparr>)))"

definition deny_operation ::
  "manager \<Rightarrow> int \<Rightarrow> string \<Rightarrow> string \<Rightarrow> (decide_error + decide_ok) \<times> manager" where
  "deny_operation m now approval_id denied_by =
     (case map_of (pending_approvals m) approval_id of
        None \<Rightarrow> (Inl Not_found, m)
      | Some a \<Rightarrow>
          if ap_status a \<noteq> PENDING then (Inl (Not_pending (ap_status a)), m)
          else (Inr (Denied_ok approval_id),
                set_approval m approval_id
                  (a\<lparr> ap_status := DENIED, ap_denied_at := Some now,
                      ap_approved_by := Some denied_by \<rparr>)))"

definition mark_expired :: "int \<Rightarrow> string \<times> approval \<Rightarrow> string \<times> approval" where
  "mark_expired now = (\<lambda>(k, a). if is_expired now a then (k, a\<lparr> ap_status := EXPIRED \<rparr>) else (k, a))"

definition get_pending_approvals :: "manager \<Rightarrow> int \<Rightarrow> (approval list \<times> nat) \<times> manager" where
  \<comment> \<open>the first loop marks and collects, the second deletes what the first collected.\<close>
  "get_pending_approvals m now =
     (let items = pending_approvals m;
          pending = map snd (filter (\<lambda>(k, a). \<not> is_expired now a \<and> ap_status a = PENDING) items);
          expired_ids = map fst (filter (\<lambda>(k, a). is_expired now a) items);
          marked = map (mark_expired now) items
      in ((pending, length pending),
          m\<lparr> pending_approvals := foldl (\<lambda>al k. AList.delete k al) marked expired_ids \<rparr>))"

definition cleanup_expired_approvals :: "manager \<Rightarrow> int \<Rightarrow> nat \<times> manager" where
  "cleanup_expired_approvals m now =
     (let items = pending_approvals m;
          expired_ids = map fst (filter (\<lambda>(k, a). is_expired now a) items)
      in (length expired_ids,
          m\<lparr> pending_approvals := foldl (\<lambda>al k. AList.delete k al) items expired_ids \<rparr>))"

subsection \<open>Sequences of ledger operations\<close>

datatype ledger_op =
    Create string int string
  | Get_status string int
  | Approve string string int
  | Deny string string int
  | List_pending int
  | Sweep int

fun apply_op :: "manager \<Rightarrow> ledger_op \<Rightarrow> manager" where
  "apply_op m (Create k now q) = snd (create_approval_request m k now q)"
| "apply_op m (Get_status k now) = snd (get_approval_status m now k)"
| "apply_op m (Approve k who now) = snd (approve_operation m now k who)"
| "apply_op m (Deny k who now) = snd (deny_operation m now k who)"
| "apply_op m (List_pending now) = snd (get_pending_approvals m now)"
| "apply_op m (Sweep now) = snd (cleanup_expired_approvals m now)"

definition run_ops :: "manager \<Rightarrow> ledger_op list \<Rightarrow> manager" where
  "run_ops m ops = foldl apply_op m ops"

fun decision :: "manager \<Rightarrow> string \<Rightarrow> ledger_op \<Rightarrow> (decide_error + decide_ok) option" where
  \<comment> \<open>what a decide call on request \<open>k\<close> returns; \<open>None\<close> for every other operation.\<close>
  "decision m k (Approve k' who now) =
     (if k' = k then Some (fst (approve_operation m now k who)) else None)"
| "decision m k (Deny k' who now) =
     (if k' = k then Some (fst (deny_operation m now k who)) else None)"
| "decision m k _ = None"

fun creates :: "string \<Rightarrow> ledger_op \<Rightarrow> bool" where
  "creates k (Create k' now q) = (k' = k)"
| "creates k _ = False"

definition status_in :: "manager \<Rightarrow> string \<Rightarrow> ApprovalStatus option" where
  "status_in m k = map_option ap_status (map_of (pending_approvals m) k)"

fun decision_log ::
  "manager \<Rightarrow> string \<Rightarrow> ledger_op list \<Rightarrow> (ApprovalStatus option \<times> (decide_error + decide_ok)) list" where
  \<comment> \<open>the decide calls on request \<open>k\<close> in a run, in order: the status of \<open>k\<close> in the ledger
      when the call is made (\<open>None\<close> when the ledger does not hold it), and what it returns.\<close>
  "decision_log m k [] = []"
| "decision_log m k (x # xs) =
     (case decision m k x of
        None \<Rightarrow> decision_log (apply_op m x) k xs
      | Some r \<Rightarrow>
          (status_in m k, r) # decision_log (apply_op m x) k xs)"

section \<open>\<open>main.py\<close>: streaming sessions and \<open>/stop\<close>\<close>

text \<open>
  \<open>active_sessions\<close> is a dictionary from session ids to session data, guarded by
  \<open>session_lock\<close>, a \<open>threading.Lock\<close>. The endpoints are coroutines of one event loop: a
  request runs without interruption up to its next \<open>yield\<close> or \<open>await\<close>, its suspensions,
  which is where other requests are served. A block under the lock that does not suspend
  is atomic and leaves the lock free. \<open>generate_stream\<close> yields its \<open>stopped\<close> chunk
  inside such a block, so the lock is held while the stream is suspended there; a request
  that asks for the lock while it is held waits on the thread of the event loop, which
  then runs nothing else: such a call does not return, and its result is \<open>None\<close>. The
  model follows one stream and the \<open>/stop\<close> and \<open>/sessions\<close> requests served during its
  suspensions; the streams of other requests are not part of it. Time stamps written into
  the session data and into the chunks are left out.
\<close>

record session =
  ss_thread_id :: string
  ss_is_active :: bool
  ss_query :: string

record registry =
  active_sessions :: "(string \<times> session) list"
  session_lock :: bool

definition register_session :: "registry \<Rightarrow> string \<Rightarrow> string \<Rightarrow> string \<Rightarrow> registry option" where
  \<comment> \<open>the start of \<open>chat_stream\<close>, for the fresh \<open>session_id\<close>.\<close>
  "register_session R session_id thread_id query =
     (if session_lock R then None
      else Some (R\<lparr> active_sessions := AList.update session_id
             \<lparr> ss_thread_id = thread_id, ss_is_active = True, ss_query = query \<rparr>
             (active_sessions R) \<rparr>))"

datatype http_error = HTTPException nat string

definition stop_generation :: "registry \<Rightarrow> string \<Rightarrow> ((http_error + string) \<times> registry) option" where
  \<comment> \<open>the success value is the \<open>session_id\<close> of the returned message.\<close>
  "stop_generation R session_id =
     (if session_lock R then None
      else
        (case map_of (active_sessions R) session_id of
           Some ss \<Rightarrow>
             Some (Inr session_id,
                   R\<lparr> active_sessions :=
                        AList.update session_id (ss\<lparr> ss_is_active := False \<rparr>) (active_sessions R) \<rparr>)
         | None \<Rightarrow> Some (Inl (HTTPException 404 ''Session not found or already completed''), R)))"

record event =
  ev_chunk :: string
  ev_chunk_type :: string
  ev_is_final :: bool
  ev_thread_id :: string
  ev_session_id :: string
  ev_requires_approval :: "bool option"

definition warning_sign :: string where
  \<comment> \<open>U+26A0 U+FE0F in UTF-8.\<close>
  "warning_sign = [CHR 0xE2, CHR 0x9A, CHR 0xA0, CHR 0xEF, CHR 0xB8, CHR 0x8F]"

definition is_approval_response :: "string \<Rightarrow> bool" where
  "is_approval_response response =
     (contains response ''DANGEROUS OPERATION DETECTED'' \<or> contains response warning_sign
      \<or> contains response ''**Approval ID:**'' \<or> contains response ''Dangerous operation detected'')"

definition session_live :: "registry \<Rightarrow> string \<Rightarrow> bool" where
  \<comment> \<open>the negation of the test made under the lock before and after each chunk.\<close>
  "session_live R session_id =
     (case map_of (active_sessions R) session_id of None \<Rightarrow> False | Some ss \<Rightarrow> ss_is_active ss)"

definition get_active_sessions :: "registry \<Rightarrow> ((string \<times> session) list \<times> registry) option" where
  \<comment> \<open>\<open>GET /sessions\<close>: the active sessions, read under the lock.\<close>
  "get_active_sessions R =
     (if session_lock R then None
      else Some (filter (\<lambda>(k, ss). ss_is_active ss) (active_sessions R), R))"

datatype request = Stop string | Get_sessions

fun handle :: "registry \<Rightarrow> request \<Rightarrow> registry option" where
  \<comment> \<open>the registry after a request; \<open>None\<close> when the request waits for the lock and the
      event loop with it.\<close>
  "handle R (Stop session_id) = map_option snd (stop_generation R session_id)"
| "handle R Get_sessions = map_option snd (get_active_sessions R)"

fun serve :: "registry \<Rightarrow> request list \<Rightarrow> registry option" where
  \<comment> \<open>the requests served during one suspension of the stream, in order.\<close>
  "serve R [] = Some R"
| "serve R (q # qs) =
     (case handle R q of
        None \<Rightarrow> None
      | Some R' \<Rightarrow> serve R' qs)"

definition stopped_event :: "string \<Rightarrow> string \<Rightarrow> event" where
  "stopped_event thread_id session_id =
     \<lparr> ev_chunk = [], ev_chunk_type = ''stopped'', ev_is_final = True,
       ev_thread_id = thread_id, ev_session_id = session_id, ev_requires_approval = None \<rparr>"

definition approval_event :: "string \<Rightarrow> string \<Rightarrow> string \<Rightarrow> event" where
  "approval_event response thread_id session_id =
     \<lparr> ev_chunk = response, ev_chunk_type = ''human_approval'', ev_is_final = True,
       ev_thread_id = thread_id, ev_session_id = session_id, ev_requires_approval = Some True \<rparr>"

definition join_words :: "string list \<Rightarrow> string" where
  \<comment> \<open>\<open>" ".join(ws)\<close>\<close>
  "join_words ws = (case ws of [] \<Rightarrow> [] | w # r \<Rightarrow> foldl (\<lambda>acc x. acc @ '' '' @ x) w r)"

definition chunk_text :: "string list \<Rightarrow> nat \<Rightarrow> string" where
  \<comment> \<open>the chunk of loop index \<open>i\<close>: \<open>words[i:i + 2]\<close> joined, with a space if more follows.\<close>
  "chunk_text words i =
     join_words (take 2 (drop i words)) @ (if i + 2 < length words then '' '' else [])"

definition text_event :: "string \<Rightarrow> string \<Rightarrow> string list \<Rightarrow> nat \<Rightarrow> event" where
  "text_event thread_id session_id words i =
     \<lparr> ev_chunk = chunk_text words i,
       ev_chunk_type = ''text'', ev_is_final = (i + 2 \<ge> length words),
       ev_thread_id = thread_id, ev_session_id = session_id, ev_requires_approval = None \<rparr>"

definition range2 :: "nat \<Rightarrow> nat list" where
  \<comment> \<open>\<open>range(0, n, 2)\<close>\<close>
  "range2 n = map (\<lambda>k. 2 * k) [0 ..< (n + 1) div 2]"

datatype step = Yield event | Sleep

datatype ending = Completed | Return | Blocked

definition stopped_yield ::
  "(nat \<Rightarrow> request list) \<Rightarrow> string \<Rightarrow> string \<Rightarrow> nat \<Rightarrow> registry \<Rightarrow> step list \<times> registry \<times> ending" where
  \<comment> \<open>\<open>yield\<close> of the \<open>stopped\<close> chunk and \<open>return\<close>, inside \<open>with session_lock\<close>: the lock
      is held during suspension \<open>n\<close> and released when the stream resumes.\<close>
  "stopped_yield sched thread_id session_id n R =
     (case serve (R\<lparr> session_lock := True \<rparr>) (sched n) of
        None \<Rightarrow> ([Yield (stopped_event thread_id session_id)], R\<lparr> session_lock := True \<rparr>, Blocked)
      | Some R' \<Rightarrow> ([Yield (stopped_event thread_id session_id)], R'\<lparr> session_lock := False \<rparr>, Return))"

text \<open>
  The loop of \<open>generate_stream\<close>. \<open>sched n\<close> lists the requests served during the \<open>n\<close>-th
  suspension of the stream; the counter \<open>n\<close> is threaded through.
  The result is the suspensions of the stream in order (the chunks it yields and its
  sleeps), the registry, and how the loop ends: it runs to its end, it returns from
  inside, or the event loop is blocked and the stream never resumes.
\<close>

fun stream_loop ::
  "(nat \<Rightarrow> request list) \<Rightarrow> string \<Rightarrow> string \<Rightarrow> string list \<Rightarrow> nat list \<Rightarrow> nat \<Rightarrow> registry
    \<Rightarrow> step list \<times> registry \<times> ending" where
  "stream_loop sched thread_id session_id words [] n R = ([], R, Completed)"
| "stream_loop sched thread_id session_id words (i # rest) n R =
     (if session_lock R then ([], R, Blocked)
      else if \<not> session_live R session_id then stopped_yield sched thread_id session_id n R
      else
        \<comment> \<open>the \<open>yield\<close> of the text chunk: suspension \<open>n\<close>, the lock is free\<close>
        (case serve R (sched n) of
           None \<Rightarrow> ([Yield (text_event thread_id session_id words i)], R, Blocked)
         | Some R1 \<Rightarrow>
             if session_lock R1 then ([Yield (text_event thread_id session_id words i)], R1, Blocked)
             else if \<not> session_live R1 session_id
             then (case stopped_yield sched thread_id session_id (n + 1) R1 of
                     (tr, R2, e) \<Rightarrow> (Yield (text_event thread_id session_id words i) # tr, R2, e))
             else
               \<comment> \<open>\<open>await asyncio.sleep(0.02)\<close>: suspension \<open>n + 1\<close>\<close>
               (case serve R1 (sched (n + 1)) of
                  None \<Rightarrow> ([Yield (text_event thread_id session_id words i), Sleep], R1, Blocked)
                | Some R2 \<Rightarrow>
                    (case stream_loop sched thread_id session_id words rest (n + 2) R2 of
                       (tr, R3, e) \<Rightarrow>
                         (Yield (text_event thread_id session_id words i) # Sleep # tr, R3, e)))))"

definition mark_completed :: "registry \<Rightarrow> string \<Rightarrow> registry option" where
  \<comment> \<open>the block after the loop: \<open>is_active = False\<close> if the session is registered.\<close>
  "mark_completed R session_id =
     (if session_lock R then None
      else
        (case map_of (active_sessions R) session_id of
           Some ss \<Rightarrow>
             Some (R\<lparr> active_sessions :=
                      AList.update session_id (ss\<lparr> ss_is_active := False \<rparr>) (active_sessions R) \<rparr>)
         | None \<Rightarrow> Some R))"

definition unregister :: "registry \<Rightarrow> string \<Rightarrow> registry option" where
  \<comment> \<open>the \<open>finally\<close> block: the session is deleted.\<close>
  "unregister R session_id =
     (if session_lock R then None
      else Some (R\<lparr> active_sessions := AList.delete session_id (active_sessions R) \<rparr>))"

definition finish :: "step list \<Rightarrow> registry \<Rightarrow> string \<Rightarrow> ending \<Rightarrow> step list \<times> registry \<times> ending" where
  "finish tr R session_id e =
     (case unregister R session_id of None \<Rightarrow> (tr, R, Blocked) | Some R' \<Rightarrow> (tr, R', e))"

definition generate_stream ::
  "(nat \<Rightarrow> request list) \<Rightarrow> string \<Rightarrow> string \<Rightarrow> string \<Rightarrow> registry
     \<Rightarrow> step list \<times> registry \<times> ending" where
  \<comment> \<open>\<open>response\<close> is what \<open>agent.chat\<close> returned. Suspension 0 is the time between the
      registration and the start of the generator. \<open>agent.chat\<close> catches its exceptions,
      so the \<open>except\<close> branch does not run; the \<open>finally\<close> block runs unless the stream
      is blocked.\<close>
  "generate_stream sched response thread_id session_id R =
     (case serve R (sched 0) of
        None \<Rightarrow> ([], R, Blocked)
      | Some R0 \<Rightarrow>
          if is_approval_response response
          then
            (case serve R0 (sched 1) of
               None \<Rightarrow> ([Yield (approval_event response thread_id session_id)], R0, Blocked)
             | Some R1 \<Rightarrow>
                 finish [Yield (approval_event response thread_id session_id)] R1 session_id Return)
          else
            (let words = split response in
             case stream_loop sched thread_id session_id words (range2 (length words)) 1 R0 of
               (tr, R1, Blocked) \<Rightarrow> (tr, R1, Blocked)
             | (tr, R1, Return) \<Rightarrow> finish tr R1 session_id Return
             | (tr, R1, Completed) \<Rightarrow>
                 (case mark_completed R1 session_id of
                    None \<Rightarrow> (tr, R1, Blocked)
                  | Some R2 \<Rightarrow> finish tr R2 session_id Completed)))"

definition yielded :: "step list \<Rightarrow> event list" where
  \<comment> \<open>the chunks handed to the caller, in order.\<close>
  "yielded tr = concat (map (\<lambda>st. case st of Yield e \<Rightarrow> [e] | Sleep \<Rightarrow> []) tr)"

definition text_chunks :: "event list \<Rightarrow> string list" where
  \<comment> \<open>the text delivered to the caller: the chunks of type \<open>text\<close>, in order.\<close>
  "text_chunks evs = map ev_chunk (filter (\<lambda>e. ev_chunk_type e = ''text'') evs)"

section \<open>\<open>agent/main_agent.py\<close>: the conversation workflow\<close>

text \<open>
  The collaborators of the workflow are parameters: the language model behind the router,
  the statement generation (the table-name extraction, and the model's answer passed
  through \<open>_extract_sql_from_text\<close>), the final answer, and the database behind
  \<open>execute_sql_query\<close>, which may answer by what was executed before. A collaborator
  either returns or raises, and \<open>Raised\<close> carries \<open>str(e)\<close>. \<open>uuid.uuid4()\<close> and
  \<open>datetime.now()\<close> are streams read through counters kept in the world. LangGraph is
  not part of the repository; \<open>edge_writes_kept\<close> says whether what a routing function
  writes into the state it is handed reaches the next node.
\<close>

datatype 'a outcome = Raised string | Returned 'a

datatype exec_result = Exec_ok string | Exec_error string

datatype role = HumanMessage | AIMessage

type_synonym message = "role \<times> string"

record ctx =
  cx_operation_result :: "string option"
  cx_sql_executed :: "string option"
  cx_requires_approval :: "bool option"
  cx_approval_id :: "string option"
  cx_sql_generated :: "string option"
  cx_execution_successful :: "bool option"
  cx_sql_query :: "string option"

definition no_ctx :: ctx where
  \<comment> \<open>the empty dictionary.\<close>
  "no_ctx = \<lparr> cx_operation_result = None, cx_sql_executed = None, cx_requires_approval = None,
       cx_approval_id = None, cx_sql_generated = None, cx_execution_successful = None,
       cx_sql_query = None \<rparr>"

record ConversationState =
  st_messages :: "message list"
  st_next_action :: "string option"
  st_context :: "ctx option"
  st_pending_query :: "string option"
  st_human_approval :: "bool option"
  st_approval_pending :: "bool option"
  st_approval_id :: "string option"

record collaborators =
  llm_route :: "string \<Rightarrow> string outcome"
  extract_table_names_from_query :: "string \<Rightarrow> string list"
  llm_sql :: "bool \<Rightarrow> string \<Rightarrow> string list \<Rightarrow> string outcome"
  execute_sql_query :: "string list \<Rightarrow> string \<Rightarrow> exec_result"
  llm_respond :: "message list \<Rightarrow> string \<Rightarrow> string \<Rightarrow> string outcome"
  uuid4 :: "nat \<Rightarrow> string"
  datetime_now :: "nat \<Rightarrow> int"
  edge_writes_kept :: bool

record world =
  w_manager :: manager
  w_threads :: "(string \<times> ConversationState) list"
  w_executed :: "string list"
  w_uuids :: nat
  w_ticks :: nat

definition nl :: string where "nl = [CHR 0x0A]"

definition check_mark :: string where
  \<comment> \<open>U+2705 in UTF-8.\<close>
  "check_mark = [CHR 0xE2, CHR 0x9C, CHR 0x85]"

definition cross_mark :: string where
  \<comment> \<open>U+274C in UTF-8.\<close>
  "cross_mark = [CHR 0xE2, CHR 0x9D, CHR 0x8C]"

definition attribute_error :: string where
  "attribute_error = [CHR 0x27] @ ''NoneType'' @ [CHR 0x27] @ '' object has no attribute ''
     @ [CHR 0x27] @ ''get'' @ [CHR 0x27]"

definition truthy :: "string option \<Rightarrow> bool" where
  \<comment> \<open>the truth value of an optional text: neither \<open>None\<close> nor empty.\<close>
  "truthy x = (case x of None \<Rightarrow> False | Some s \<Rightarrow> s \<noteq> [])"

definition last_message :: "ConversationState \<Rightarrow> string" where
  "last_message st = (if st_messages st = [] then [] else snd (last (st_messages st)))"

definition run_sql :: "collaborators \<Rightarrow> world \<Rightarrow> string \<Rightarrow> exec_result \<times> world" where
  \<comment> \<open>a call of \<open>execute_sql_query\<close>: the statement is recorded in \<open>w_executed\<close>.\<close>
  "run_sql env w q = (execute_sql_query env (w_executed w) q, w\<lparr> w_executed := w_executed w @ [q] \<rparr>)"

definition read_clock :: "collaborators \<Rightarrow> world \<Rightarrow> int \<times> world" where
  "read_clock env w = (datetime_now env (w_ticks w), w\<lparr> w_ticks := Suc (w_ticks w) \<rparr>)"

definition read_uuid :: "collaborators \<Rightarrow> world \<Rightarrow> string \<times> world" where
  "read_uuid env w = (uuid4 env (w_uuids w), w\<lparr> w_uuids := Suc (w_uuids w) \<rparr>)"

definition llm_router :: "collaborators \<Rightarrow> ConversationState \<Rightarrow> ConversationState" where
  "llm_router env st =
     (case llm_route env (last_message st) of
        Returned content \<Rightarrow>
          (let action = lower (strip content) in
           if action \<in> set [''database_operation'', ''response'', ''end'']
           then st\<lparr> st_next_action := Some action \<rparr>
           else st\<lparr> st_next_action := Some ''response'' \<rparr>)
      | Raised e \<Rightarrow> st\<lparr> st_next_action := Some ''response'' \<rparr>)"

definition should_continue :: "ConversationState \<Rightarrow> string option" where
  \<comment> \<open>\<open>state.get("next_action", "response")\<close>: the key is always there, so its value.\<close>
  "should_continue st = st_next_action st"

definition needs_human_approval :: "ConversationState \<Rightarrow> string + string" where
  "needs_human_approval st =
     (case st_context st of
        None \<Rightarrow> Inl attribute_error
      | Some c \<Rightarrow>
          (let sql_query = (if truthy (cx_sql_query c) then cx_sql_query c else cx_sql_executed c) in
           if cx_requires_approval c = Some True \<and> truthy sql_query
           then Inr ''human_approval'' else Inr ''response''))"

definition approval_message :: "string \<Rightarrow> string option \<Rightarrow> string \<Rightarrow> string \<Rightarrow> string" where
  "approval_message operation_type table_name pending_query approval_id =
     nl @ warning_sign @ '' **DANGEROUS OPERATION DETECTED** '' @ warning_sign @ nl @ nl
     @ ''I need your approval to execute this potentially dangerous database operation:'' @ nl @ nl
     @ ''**Operation Type:** '' @ operation_type @ nl
     @ ''**Table:** ''
     @ (case table_name of None \<Rightarrow> ''Unknown'' | Some t \<Rightarrow> if t = [] then ''Unknown'' else t) @ nl
     @ ''**SQL Query:**'' @ nl
     @ ''```sql'' @ nl
     @ pending_query @ nl
     @ ''```'' @ nl @ nl
     @ ''This operation could modify or delete data in your database. Please review the query above and confirm your decision.''
     @ nl @ nl
     @ ''**Approval ID:** '' @ approval_id @ nl"

definition human_approval ::
  "collaborators \<Rightarrow> ConversationState \<Rightarrow> world \<Rightarrow> (string + ConversationState) \<times> world" where
  "human_approval env st w =
     (case st_context st of
        None \<Rightarrow> (Inl attribute_error, w)
      | Some c \<Rightarrow>
          (let pending_query = (case cx_sql_executed c of None \<Rightarrow> [] | Some q \<Rightarrow> q) in
           if pending_query = [] then (Inr (st\<lparr> st_human_approval := Some False \<rparr>), w)
           else if \<not> is_dangerous_operation pending_query
           then (Inr (st\<lparr> st_human_approval := Some True \<rparr>), w)
           else
             (case read_uuid env w of (new_id, w1) \<Rightarrow>
              case read_clock env w1 of (timestamp, w2) \<Rightarrow>
              case create_approval_request (w_manager w2) new_id timestamp pending_query of
                (approval_request, m') \<Rightarrow>
                  (Inr (st\<lparr> st_approval_id := Some new_id,
                            st_context := Some (no_ctx\<lparr>
                              cx_operation_result := Some (approval_message
                                 (ap_operation_type approval_request) (ap_table_name approval_request)
                                 pending_query new_id),
                              cx_sql_executed := Some pending_query,
                              cx_requires_approval := Some True,
                              cx_approval_id := Some new_id \<rparr>),
                            st_human_approval := None,
                            st_approval_pending := Some True \<rparr>),
                   w2\<lparr> w_manager := m' \<rparr>))))"

definition handle_human_decision ::
  "collaborators \<Rightarrow> ConversationState \<Rightarrow> world \<Rightarrow> (string \<times> ConversationState) \<times> world" where
  \<comment> \<open>the route, with the state as the function leaves it.\<close>
  "handle_human_decision env st w =
     (case st_approval_id st of
        None \<Rightarrow> ((''response'', st\<lparr> st_human_approval := Some False \<rparr>), w)
      | Some k \<Rightarrow>
          if k = [] then ((''response'', st\<lparr> st_human_approval := Some False \<rparr>), w)
          else
            (case read_clock env w of (now, w1) \<Rightarrow>
             case get_approval_status (w_manager w1) now k of
               (approval_status, m') \<Rightarrow>
                 (let status = lower (result_status approval_status);
                      w2 = w1\<lparr> w_manager := m' \<rparr> in
                  if status = ''approved''
                  then ((''database_operation'', st\<lparr> st_human_approval := Some True \<rparr>), w2)
                  else if status \<in> set [''denied'', ''expired'']
                  then ((''response'', st\<lparr> st_human_approval := Some False \<rparr>), w2)
                  else ((''response'', st), w2))))"

definition error_context :: "string \<Rightarrow> ctx" where
  \<comment> \<open>what the \<open>except\<close> branch of \<open>_database_operation\<close> stores.\<close>
  "error_context e = no_ctx\<lparr>
       cx_operation_result := Some (cross_mark @ '' Error: '' @ e),
       cx_sql_generated := Some ''Error occurred'',
       cx_execution_successful := Some False \<rparr>"

definition is_create_request :: "string \<Rightarrow> bool" where
  "is_create_request user_lower =
     list_ex (\<lambda>keyword. contains user_lower keyword)
       [''create table'', ''make table'', ''add table'', ''new table'',
        ''create a table'', ''table name'', ''database name'']"

definition check_and_execute ::
  "collaborators \<Rightarrow> ConversationState \<Rightarrow> world \<Rightarrow> string \<Rightarrow> ConversationState \<times> world" where
  \<comment> \<open>steps 3 to 5 of \<open>_database_operation\<close>, for the candidate statement.\<close>
  "check_and_execute env st w sql_query =
     (if is_dangerous_operation sql_query
      then (st\<lparr> st_context := Some (no_ctx\<lparr>
                  cx_operation_result := Some (warning_sign @ '' Dangerous operation detected:'' @ nl
                     @ ''```sql'' @ nl @ sql_query @ nl @ ''```''),
                  cx_sql_executed := Some sql_query,
                  cx_requires_approval := Some True \<rparr>) \<rparr>, w)
      else
        (case run_sql env w sql_query of (result, w1) \<Rightarrow>
           (st\<lparr> st_context := Some (no_ctx\<lparr>
                  cx_operation_result := Some
                    (case result of
                       Exec_ok dump \<Rightarrow> check_mark @ '' Query executed successfully!'' @ nl
                         @ ''```sql'' @ nl @ sql_query @ nl @ ''```''
                     | Exec_error err \<Rightarrow> cross_mark @ '' SQL Execution Failed:'' @ nl
                         @ ''```sql'' @ nl @ sql_query @ nl @ ''```'' @ nl @ ''Error: '' @ err),
                  cx_sql_executed := Some sql_query,
                  cx_sql_generated := Some sql_query,
                  cx_execution_successful := Some (case result of Exec_ok dump \<Rightarrow> True | Exec_error err \<Rightarrow> False)
                \<rparr>) \<rparr>, w1)))"

definition generate_statement ::
  "collaborators \<Rightarrow> ConversationState \<Rightarrow> world \<Rightarrow> ConversationState \<times> world" where
  \<comment> \<open>step 2 of \<open>_database_operation\<close> and what follows it.\<close>
  "generate_statement env st w =
     (let create = is_create_request (lower (last_message st));
          mentioned_tables = extract_table_names_from_query env (last_message st) in
      if mentioned_tables = []
      then (st\<lparr> st_context := Some (no_ctx\<lparr> cx_operation_result := Some
               (if create
                then cross_mark @ '' Could not detect table name in your CREATE TABLE request. Please specify the table name clearly.''
                else cross_mark @ '' Could not detect any table name in your request.'') \<rparr>) \<rparr>, w)
      else
        (case llm_sql env create (last_message st) mentioned_tables of
           Raised e \<Rightarrow> (st\<lparr> st_context := Some (error_context e) \<rparr>, w)
         | Returned sql_query \<Rightarrow>
             if sql_query = []
             then (st\<lparr> st_context := Some (error_context
                      (if create then ''No valid CREATE TABLE SQL found in LLM output.''
                       else ''No valid SQL found in LLM output.'')) \<rparr>, w)
             else check_and_execute env st w sql_query))"

definition approved_query :: "ConversationState \<Rightarrow> string outcome" where
  \<comment> \<open>\<open>state.get("context", {}).get("sql_executed")\<close>, which raises when the context is \<open>None\<close>;
      an absent key reads as the empty text.\<close>
  "approved_query st =
     (case st_context st of
        None \<Rightarrow> Raised attribute_error
      | Some c \<Rightarrow> Returned (case cx_sql_executed c of None \<Rightarrow> [] | Some q \<Rightarrow> q))"

definition database_operation ::
  "collaborators \<Rightarrow> ConversationState \<Rightarrow> world \<Rightarrow> ConversationState \<times> world" where
  "database_operation env st w =
     (if st_human_approval st = Some True
      then
        (case approved_query st of
           Raised e \<Rightarrow> (st\<lparr> st_context := Some (error_context e) \<rparr>, w)
         | Returned sql_query \<Rightarrow>
             if sql_query \<noteq> []
             then
               (case run_sql env w sql_query of (result, w1) \<Rightarrow>
                  (st\<lparr> st_context := Some (no_ctx\<lparr>
                         cx_operation_result := Some
                           (case result of
                              Exec_ok dump \<Rightarrow> check_mark @ '' Executed approved query successfully:'' @ nl
                                @ ''```sql'' @ nl @ sql_query @ nl @ ''```'' @ nl
                            | Exec_error err \<Rightarrow> cross_mark @ '' Error executing approved query:'' @ nl @ err),
                         cx_sql_executed := Some sql_query \<rparr>),
                       st_human_approval := None \<rparr>, w1))
             else generate_statement env st w)
      else if st_human_approval st = Some False
      then (st\<lparr> st_context := Some (no_ctx\<lparr> cx_operation_result := Some
                  (cross_mark @ '' Operation cancelled by user.'') \<rparr>),
                st_human_approval := None \<rparr>, w)
      else generate_statement env st w)"

definition generate_response :: "collaborators \<Rightarrow> ConversationState \<Rightarrow> string + ConversationState" where
  \<comment> \<open>no code of the repository stores \<open>database_info\<close> in the context, so that part is
      left out.\<close>
  "generate_response env st =
     (if st_approval_pending st = Some True \<and> st_context st = None then Inl attribute_error
      else if st_approval_pending st = Some True
              \<and> (case st_context st of None \<Rightarrow> False | Some c \<Rightarrow> cx_requires_approval c = Some True)
      then
        (case st_context st of
           None \<Rightarrow> Inl attribute_error
         | Some c \<Rightarrow>
             (case cx_operation_result c of
                None \<Rightarrow> Inl ''operation_result''
              | Some approval_text \<Rightarrow>
                  Inr (st\<lparr> st_messages := st_messages st @ [(AIMessage, approval_text)] \<rparr>)))
      else
        (let context_parts =
               (case st_context st of
                  None \<Rightarrow> []
                | Some c \<Rightarrow>
                    (case cx_operation_result c of
                       None \<Rightarrow> []
                     | Some r \<Rightarrow> [''Database Operation Result: '' @ r]))
               @ (case st_human_approval st of
                    None \<Rightarrow> []
                  | Some True \<Rightarrow> [''Human approved the database operation.'']
                  | Some False \<Rightarrow> [''Human denied the database operation.'']);
             full_context =
               (case context_parts of
                  [] \<Rightarrow> ''No additional context available.''
                | part # parts \<Rightarrow> foldl (\<lambda>acc x. acc @ nl @ nl @ x) part parts)
         in case llm_respond env (st_messages st) full_context (last_message st) of
              Returned ai_response \<Rightarrow>
                Inr (st\<lparr> st_messages := st_messages st @ [(AIMessage, ai_response)] \<rparr>)
            | Raised e \<Rightarrow>
                Inr (st\<lparr> st_messages := st_messages st @
                  [(AIMessage,
                    if contains e ''401'' \<or> contains e ''User not found''
                    then cross_mark @ '' **API Authentication Error:** '' @ e @ nl @ nl
                         @ ''Please check your OpenRouter API key configuration.''
                    else ''Error generating response: '' @ e)] \<rparr>)))"

subsection \<open>The graph\<close>

datatype node = Router | Database_operation | Human_approval | Response

text \<open>
  \<open>run_graph\<close> follows the edges set up by \<open>_setup_workflow\<close> from a node to \<open>END\<close>. Its
  first argument bounds the number of nodes run, as the library's recursion limit (25)
  does; running out of it, an exception escaping a node or a routing function, and a
  route that is not an edge all end the run with \<open>Inl\<close>.
\<close>

fun run_graph ::
  "collaborators \<Rightarrow> nat \<Rightarrow> node \<Rightarrow> ConversationState \<Rightarrow> world
     \<Rightarrow> (string + ConversationState) \<times> world" where
  "run_graph env 0 nd st w = (Inl ''GraphRecursionError'', w)"
| "run_graph env (Suc fuel) Router st w =
     (let st1 = llm_router env st in
      case should_continue st1 of
        None \<Rightarrow> (Inl ''KeyError'', w)
      | Some r \<Rightarrow>
          if r = ''database_operation'' then run_graph env fuel Database_operation st1 w
          else if r = ''response'' then run_graph env fuel Response st1 w
          else if r = ''end'' then (Inr st1, w)
          else (Inl ''KeyError'', w))"
| "run_graph env (Suc fuel) Database_operation st w =
     (case database_operation env st w of (st1, w1) \<Rightarrow>
        (case needs_human_approval st1 of
           Inl e \<Rightarrow> (Inl e, w1)
         | Inr r \<Rightarrow>
             if r = ''human_approval'' then run_graph env fuel Human_approval st1 w1
             else run_graph env fuel Response st1 w1))"
| "run_graph env (Suc fuel) Human_approval st w =
     (case human_approval env st w of
        (Inl e, w1) \<Rightarrow> (Inl e, w1)
      | (Inr st1, w1) \<Rightarrow>
          (case handle_human_decision env st1 w1 of ((r, st2), w2) \<Rightarrow>
             let st3 = (if edge_writes_kept env then st2 else st1) in
             if r = ''database_operation'' then run_graph env fuel Database_operation st3 w2
             else if r = ''human_approval'' then run_graph env fuel Human_approval st3 w2
             else run_graph env fuel Response st3 w2))"
| "run_graph env (Suc fuel) Response st w =
     (case generate_response env st of
        Inl e \<Rightarrow> (Inl e, w)
      | Inr st1 \<Rightarrow> (Inr st1, w))"

definition recursion_limit :: nat where
  "recursion_limit = 25"

subsection \<open>\<open>DatabaseAgent.chat\<close>\<close>

definition initial_state :: "message list \<Rightarrow> string \<Rightarrow> ConversationState" where
  \<comment> \<open>the input of \<open>workflow.invoke\<close> written over the thread's checkpoint: the message is
      added to the thread's messages, every other key is overwritten with \<open>None\<close>.\<close>
  "initial_state history user_input =
     \<lparr> st_messages = history @ [(HumanMessage, user_input)], st_next_action = None,
       st_context = None, st_pending_query = None, st_human_approval = None,
       st_approval_pending = None, st_approval_id = None \<rparr>"

definition last_ai_message :: "message list \<Rightarrow> string" where
  "last_ai_message msgs =
     (case filter (\<lambda>msg. fst msg = AIMessage) msgs of
        [] \<Rightarrow> ''I'' @ [CHR 0x27] @ ''m sorry, I couldn'' @ [CHR 0x27] @ ''t process your request. Please try again.''
      | ai # ais \<Rightarrow> snd (last (ai # ais)))"

definition no_pending_approval :: string where
  "no_pending_approval = warning_sign @ '' No pending approval found.''"

definition resume :: "collaborators \<Rightarrow> string \<Rightarrow> world \<Rightarrow> string \<times> world" where
  \<comment> \<open>the branch of \<open>chat\<close> for the inputs \<open>__APPROVED__\<close> and \<open>__DENIED__\<close>. It reads the
      thread's state and writes nothing into it.\<close>
  "resume env thread_id w =
     (case map_of (w_threads w) thread_id of
        None \<Rightarrow> (no_pending_approval, w)
      | Some current_state \<Rightarrow>
          (case st_approval_id current_state of
             None \<Rightarrow> (no_pending_approval, w)
           | Some k \<Rightarrow>
               if k = [] then (no_pending_approval, w)
               else
                 (case read_clock env w of (now, w1) \<Rightarrow>
                  case get_approval_status (w_manager w1) now k of
                    (approval_status, m') \<Rightarrow>
                      (let status = lower (result_status approval_status);
                           w2 = w1\<lparr> w_manager := m' \<rparr> in
                       if status = ''approved''
                       then
                         (case approved_query current_state of
                            Raised e \<Rightarrow> (cross_mark @ '' Error: '' @ e, w2)
                          | Returned sql_query \<Rightarrow>
                              if sql_query \<noteq> []
                              then
                                (case run_sql env w2 sql_query of
                                   (Exec_ok dump, w3) \<Rightarrow>
                                     (check_mark @ '' Successfully executed approved operation:'' @ nl
                                        @ ''```sql'' @ nl @ sql_query @ nl @ ''```'' @ nl @ nl
                                        @ ''Result: '' @ dump, w3)
                                 | (Exec_error err, w3) \<Rightarrow>
                                     (cross_mark @ '' Error executing approved operation:'' @ nl
                                        @ ''```sql'' @ nl @ sql_query @ nl @ ''```'' @ nl @ nl
                                        @ ''Error: '' @ err, w3))
                              else (no_pending_approval, w2))
                       else if status = ''denied''
                       then (cross_mark @ '' Operation cancelled by user. No changes were made to the database.'', w2)
                       else (no_pending_approval, w2)))))"

definition chat :: "collaborators \<Rightarrow> string \<Rightarrow> string option \<Rightarrow> world \<Rightarrow> string \<times> world" where
  \<comment> \<open>a run that raises returns the error text and leaves the thread as it was.\<close>
  "chat env user_input thread_id w =
     (case (case thread_id of None \<Rightarrow> read_uuid env w | Some t \<Rightarrow> (t, w)) of (tid, w0) \<Rightarrow>
      if user_input \<in> set [''__APPROVED__'', ''__DENIED__''] then resume env tid w0
      else
        (let history = (case map_of (w_threads w0) tid of None \<Rightarrow> [] | Some saved \<Rightarrow> st_messages saved) in
         case run_graph env recursion_limit Router (initial_state history user_input) w0 of
           (Inl e, w1) \<Rightarrow> (cross_mark @ '' Error: '' @ e, w1)
         | (Inr final_state, w1) \<Rightarrow>
             (last_ai_message (st_messages final_state),
              w1\<lparr> w_threads := AList.update tid final_state (w_threads w1) \<rparr>)))"

section \<open>Notions used in the statements\<close>

definition may_become :: "ApprovalStatus \<Rightarrow> ApprovalStatus \<Rightarrow> bool" where
  \<comment> \<open>the moves of a status: out of \<open>PENDING\<close>, or into \<open>EXPIRED\<close>, or none.\<close>
  "may_become s s' = (s' = s \<or> s = PENDING \<or> s' = EXPIRED)"

definition refused :: "ApprovalStatus option \<times> (decide_error + decide_ok) \<Rightarrow> bool" where
  \<comment> \<open>a decide call that is refused for the state of its request: not found when the
      ledger does not hold it, not pending when its status is no longer \<open>PENDING\<close>.\<close>
  "refused e =
     (case fst e of
        None \<Rightarrow> snd e = Inl Not_found
      | Some s \<Rightarrow> s \<noteq> PENDING \<and> snd e = Inl (Not_pending s))"

fun once_then_refused :: "(ApprovalStatus option \<times> (decide_error + decide_ok)) list \<Rightarrow> bool" where
  "once_then_refused [] = True"
| "once_then_refused ((s, Inl e) # rs) = once_then_refused rs"
| "once_then_refused ((s, Inr ok) # rs) = list_all refused rs"

definition ledger_a1 :: "ApprovalStatus \<Rightarrow> manager" where
  \<comment> \<open>a ledger holding one request, created at time 0 with the default timeout.\<close>
  "ledger_a1 s = \<lparr> pending_approvals =
      [(''a1'', \<lparr> ap_id = ''a1'', ap_sql_query = ''DROP TABLE users'', ap_operation_type = ''DROP'',
          ap_table_name = Some ''users'',
          ap_description = ''DROP operation on table '' @ [CHR 0x27] @ ''users'' @ [CHR 0x27],
          ap_status = s, ap_created_at = 0, ap_expires_at = 300000000,
          ap_approved_at = None, ap_denied_at = None, ap_approved_by = None \<rparr>)],
     timeout_seconds = 300 \<rparr>"

definition response_chunks :: "string \<Rightarrow> string list" where
  \<comment> \<open>the chunks into which \<open>generate_stream\<close> cuts a response: two words each.\<close>
  "response_chunks response =
     map (chunk_text (split response)) (range2 (length (split response)))"

definition text_steps :: "string \<Rightarrow> string \<Rightarrow> string list \<Rightarrow> nat list \<Rightarrow> step list" where
  \<comment> \<open>the suspensions of a stream of text that nothing stops: each chunk and the sleep
      after it.\<close>
  "text_steps thread_id session_id words ixs =
     concat (map (\<lambda>i. [Yield (text_event thread_id session_id words i), Sleep]) ixs)"

definition full_steps :: "string \<Rightarrow> string \<Rightarrow> string \<Rightarrow> step list" where
  "full_steps thread_id session_id response =
     text_steps thread_id session_id (split response) (range2 (length (split response)))"

definition one_session :: "bool \<Rightarrow> registry" where
  \<comment> \<open>a registry holding the session \<open>s1\<close> of thread \<open>t1\<close>, its lock free.\<close>
  "one_session active =
     \<lparr> active_sessions =
         [(''s1'', \<lparr> ss_thread_id = ''t1'', ss_is_active = active, ss_query = ''list the tables'' \<rparr>)],
       session_lock = False \<rparr>"

definition stop_at :: "nat \<Rightarrow> nat \<Rightarrow> request list" where
  \<comment> \<open>a single \<open>/stop\<close> request for \<open>s1\<close>, served at suspension \<open>j\<close>.\<close>
  "stop_at j n = (if n = j then [Stop ''s1''] else [])"

definition gate_reply :: string where
  \<comment> \<open>the reply of \<open>agent.chat\<close> that asks for the approval of a \<open>DELETE\<close>.\<close>
  "gate_reply = approval_message ''DELETE'' (Some ''users'') ''DELETE FROM users'' ''a1''"

definition leading_keyword :: "string \<Rightarrow> string \<Rightarrow> bool" where
  \<comment> \<open>the text begins, after optional whitespace, with the keyword, in any letter case.\<close>
  "leading_keyword s kw =
     (length kw \<le> length (dropWhile is_space s)
      \<and> lower (take (length kw) (dropWhile is_space s)) = lower kw)"

definition agent_env :: "string \<Rightarrow> collaborators" where
  \<comment> \<open>collaborators for the examples: the router chooses the database operation, the
      statement generator returns \<open>q\<close>, the database accepts every statement, the clock
      advances by one second a reading, and the only uuid drawn is \<open>a1\<close>.\<close>
  "agent_env q =
     \<lparr> llm_route = (\<lambda>m. Returned ''database_operation''),
       extract_table_names_from_query = (\<lambda>m. [''users'']),
       llm_sql = (\<lambda>c m t. Returned q),
       execute_sql_query = (\<lambda>h x. Exec_ok ''{}''),
       llm_respond = (\<lambda>ms c m. Returned ''Done.''),
       uuid4 = (\<lambda>n. ''a1''),
       datetime_now = (\<lambda>n. int n * 1000000),
       edge_writes_kept = True \<rparr>"

definition fresh_world :: world where
  "fresh_world = \<lparr> w_manager = simple_approval_manager, w_threads = [], w_executed = [],
       w_uuids = 0, w_ticks = 0 \<rparr>"

definition gated_state :: ConversationState where
  \<comment> \<open>the state of a thread at which the gate has asked for approval of a statement.\<close>
  "gated_state =
     \<lparr> st_messages =
         [(HumanMessage, ''delete every user''),
          (AIMessage, approval_message ''DELETE'' (Some ''users'') ''DELETE FROM users'' ''a1'')],
       st_next_action = Some ''database_operation'',
       st_context = Some (no_ctx\<lparr>
         cx_operation_result :=
           Some (approval_message ''DELETE'' (Some ''users'') ''DELETE FROM users'' ''a1''),
         cx_sql_executed := Some ''DELETE FROM users'',
         cx_requires_approval := Some True,
         cx_approval_id := Some ''a1'' \<rparr>),
       st_pending_query = None, st_human_approval = None,
       st_approval_pending = Some True, st_approval_id = Some ''a1'' \<rparr>"

definition w_gated :: world where
  \<comment> \<open>the world after the chat step that asks for a dangerous statement on thread \<open>t1\<close>:
      the request \<open>a1\<close> is pending, nothing has been executed.\<close>
  "w_gated =
     \<lparr> w_manager = \<lparr> pending_approvals =
         [(''a1'', \<lparr> ap_id = ''a1'', ap_sql_query = ''DELETE FROM users'',
             ap_operation_type = ''DELETE'', ap_table_name = Some ''users'',
             ap_description = ''DELETE operation on table '' @ [CHR 0x27] @ ''users'' @ [CHR 0x27],
             ap_status = PENDING, ap_created_at = 0, ap_expires_at = 300000000,
             ap_approved_at = None, ap_denied_at = None, ap_approved_by = None \<rparr>)],
         timeout_seconds = 300 \<rparr>,
       w_threads = [(''t1'', gated_state)], w_executed = [], w_uuids = 1, w_ticks = 2 \<rparr>"

definition w_approved :: world where
  \<comment> \<open>after \<open>approve_operation\<close> on the request, 5 seconds in.\<close>
  "w_approved = w_gated\<lparr> w_manager :=
       snd (approve_operation (w_manager w_gated) 5000000 ''a1'' ''alice'') \<rparr>"

definition w_resumed :: world where
  "w_resumed = snd (chat (agent_env ''DELETE FROM users'') ''__APPROVED__'' (Some ''t1'') w_approved)"

definition w_resumed_again :: world where
  "w_resumed_again = snd (chat (agent_env ''DELETE FROM users'') ''__APPROVED__'' (Some ''t1'') w_resumed)"





section \<open>The approval ledger: proofs\<close>

lemma map_of_set_approval:
  "map_of (pending_approvals (set_approval m k a)) k' =
     (if k' = k then Some a else map_of (pending_approvals m) k')"
  by (simp add: set_approval_def update_conv')

lemma map_of_delete_all:
  "map_of (foldl (\<lambda>al k. AList.delete k al) al ids) k =
     (if k \<in> set ids then None else map_of al k)"
  by (induction ids arbitrary: al) (auto simp: delete_conv')

lemma map_of_mark_expired:
  "map_of (map (mark_expired now) items) k =
     map_option (\<lambda>a. if is_expired now a then a\<lparr> ap_status := EXPIRED \<rparr> else a) (map_of items k)"
  by (induction items) (auto simp: mark_expired_def)

lemma status_in_set_approval:
  "status_in (set_approval m k a) k' = (if k' = k then Some (ap_status a) else status_in m k')"
  by (simp add: status_in_def map_of_set_approval)

lemma status_create:
  "status_in (snd (create_approval_request m k now q)) k' = (if k' = k then Some PENDING else status_in m k')"
  by (simp add: create_approval_request_def Let_def status_in_set_approval)

lemma status_get:
  "status_in (snd (get_approval_status m now k)) k' = Some s' \<Longrightarrow>
     \<exists>s. status_in m k' = Some s \<and> may_become s s'"
  by (auto simp: get_approval_status_def map_of_set_approval may_become_def status_in_def
        split: option.splits if_splits)

lemma status_approve:
  "status_in (snd (approve_operation m now k by)) k' = Some s' \<Longrightarrow>
     \<exists>s. status_in m k' = Some s \<and> may_become s s'"
  by (auto simp: approve_operation_def map_of_set_approval may_become_def status_in_def
        split: option.splits if_splits)

lemma status_deny:
  "status_in (snd (deny_operation m now k by)) k' = Some s' \<Longrightarrow>
     \<exists>s. status_in m k' = Some s \<and> may_become s s'"
  by (auto simp: deny_operation_def map_of_set_approval may_become_def status_in_def
        split: option.splits if_splits)

lemma status_list_pending:
  "status_in (snd (get_pending_approvals m now)) k' = Some s' \<Longrightarrow>
     \<exists>s. status_in m k' = Some s \<and> may_become s s'"
  by (auto simp: get_pending_approvals_def Let_def status_in_def map_of_delete_all map_of_mark_expired
        may_become_def split: if_splits)

lemma status_sweep:
  "status_in (snd (cleanup_expired_approvals m now)) k' = Some s' \<Longrightarrow>
     \<exists>s. status_in m k' = Some s \<and> may_become s s'"
  by (auto simp: cleanup_expired_approvals_def Let_def status_in_def map_of_delete_all
        may_become_def split: if_splits)

lemma status_step:
  assumes "\<not> creates k op" and "status_in (apply_op m op) k = Some s'"
  shows "\<exists>s. status_in m k = Some s \<and> may_become s s'"
proof (cases op)
  case (Create k' now q)
  with assms show ?thesis by (auto simp: status_create may_become_def)
next
  case (Get_status k' now)
  with assms show ?thesis by (auto dest: status_get)
next
  case (Approve k' who now)
  with assms show ?thesis by (auto dest: status_approve)
next
  case (Deny k' who now)
  with assms show ?thesis by (auto dest: status_deny)
next
  case (List_pending now)
  with assms show ?thesis by (auto dest: status_list_pending)
next
  case (Sweep now)
  with assms show ?thesis by (auto dest: status_sweep)
qed

lemma may_become_trans: "may_become a b \<Longrightarrow> may_become b c \<Longrightarrow> may_become a c"
  by (cases a; cases b; cases c) (auto simp: may_become_def)

lemma status_run:
  "\<forall>op \<in> set ops. \<not> creates k op \<Longrightarrow> status_in (run_ops m ops) k = Some s' \<Longrightarrow>
     \<exists>s. status_in m k = Some s \<and> may_become s s'"
proof (induction ops arbitrary: s' rule: rev_induct)
  case Nil
  then show ?case by (simp add: run_ops_def may_become_def)
next
  case (snoc op ops)
  from snoc.prems have nc: "\<not> creates k op" and rest: "\<forall>op \<in> set ops. \<not> creates k op" by auto
  from snoc.prems(2) have "status_in (apply_op (run_ops m ops) op) k = Some s'"
    by (simp add: run_ops_def)
  from status_step[OF nc this] obtain s1 where
    s1: "status_in (run_ops m ops) k = Some s1" and mb: "may_become s1 s'" by blast
  from snoc.IH[OF rest s1] obtain s where "status_in m k = Some s" "may_become s s1" by blast
  with mb show ?case by (blast intro: may_become_trans)
qed

lemma expired_read:
  assumes "map_of (pending_approvals m) k = Some a" and "is_expired now a"
  shows "status_in (snd (get_approval_status m now k)) k = Some EXPIRED"
  using assms by (simp add: get_approval_status_def status_in_set_approval)

lemma expired_listed:
  assumes "map_of (pending_approvals m) k = Some a" and "is_expired now a"
  shows "status_in (snd (get_pending_approvals m now)) k = None"
proof -
  from assms(1) have "(k, a) \<in> set (pending_approvals m)" by (rule map_of_SomeD)
  with assms(2) have "k \<in> set (map fst (filter (\<lambda>(k, a). is_expired now a) (pending_approvals m)))"
    by force
  then show ?thesis
    by (simp add: get_pending_approvals_def Let_def status_in_def map_of_delete_all)
qed

lemma expired_swept:
  assumes "map_of (pending_approvals m) k = Some a" and "is_expired now a"
  shows "status_in (snd (cleanup_expired_approvals m now)) k = None"
proof -
  from assms(1) have "(k, a) \<in> set (pending_approvals m)" by (rule map_of_SomeD)
  with assms(2) have "k \<in> set (map fst (filter (\<lambda>(k, a). is_expired now a) (pending_approvals m)))"
    by force
  then show ?thesis
    by (simp add: cleanup_expired_approvals_def Let_def status_in_def map_of_delete_all)
qed

text \<open>
  C4, amended: a request starts \<open>PENDING\<close>. Over every sequence of ledger operations that
  does not create the same id again, its status only moves out of \<open>PENDING\<close> or into
  \<open>EXPIRED\<close>: it never returns to \<open>PENDING\<close>, never changes between \<open>APPROVED\<close> and
  \<open>DENIED\<close>, and \<open>EXPIRED\<close> is final; a request that is absent before is absent after. A
  request whose \<open>expires_at\<close> has passed is set to \<open>EXPIRED\<close> by \<open>get_approval_status\<close>
  whatever its status, \<open>APPROVED\<close> and \<open>DENIED\<close> included, and is removed from the ledger
  by \<open>get_pending_approvals\<close> and by \<open>cleanup_expired_approvals\<close>.
\<close>

theorem status_moves_forward:
  "status_in (apply_op m0 (Create k now0 q)) k = Some PENDING
   \<and> ((\<forall>op \<in> set ops. \<not> creates k op) \<and> status_in (run_ops m ops) k = Some s'
        \<longrightarrow> (\<exists>s. status_in m k = Some s \<and> may_become s s'))
   \<and> (map_of (pending_approvals m) k = Some a \<and> is_expired now a
        \<longrightarrow> status_in (snd (get_approval_status m now k)) k = Some EXPIRED
            \<and> status_in (snd (get_pending_approvals m now)) k = None
            \<and> status_in (snd (cleanup_expired_approvals m now)) k = None)"
  using status_run[of ops k m s'] expired_read[of m k a now] expired_listed[of m k a now]
    expired_swept[of m k a now]
  by (simp add: status_create)

theorem status_moves_forward_witness:
  "status_in (run_ops (ledger_a1 DENIED) [Approve ''a1'' ''alice'' 10, Get_status ''a1'' 301000000]) ''a1''
       = Some EXPIRED
   \<and> may_become DENIED EXPIRED
   \<and> status_in (snd (get_approval_status (ledger_a1 APPROVED) 301000000 ''a1'')) ''a1'' = Some EXPIRED
   \<and> status_in (snd (get_pending_approvals (ledger_a1 APPROVED) 301000000)) ''a1'' = None
   \<and> status_in (snd (cleanup_expired_approvals (ledger_a1 APPROVED) 301000000)) ''a1'' = None"
proof -
  let ?ops = "[Approve ''a1'' ''alice'' 10, Get_status ''a1'' 301000000]"
  let ?a = "\<lparr> ap_id = ''a1'', ap_sql_query = ''DROP TABLE users'', ap_operation_type = ''DROP'',
          ap_table_name = Some ''users'',
          ap_description = ''DROP operation on table '' @ [CHR 0x27] @ ''users'' @ [CHR 0x27],
          ap_status = APPROVED, ap_created_at = 0, ap_expires_at = 300000000,
          ap_approved_at = None, ap_denied_at = None, ap_approved_by = None \<rparr>"
  have h1: "\<forall>op \<in> set ?ops. \<not> creates ''a1'' op" by simp
  have h2: "status_in (run_ops (ledger_a1 DENIED) ?ops) ''a1'' = Some EXPIRED"
    by (simp add: run_ops_def ledger_a1_def approve_operation_def get_approval_status_def
          is_expired_def set_approval_def status_in_def)
  have h3: "status_in (ledger_a1 DENIED) ''a1'' = Some DENIED"
    by (simp add: status_in_def ledger_a1_def)
  have h4: "map_of (pending_approvals (ledger_a1 APPROVED)) ''a1'' = Some ?a"
    by (simp add: ledger_a1_def)
  have h5: "is_expired 301000000 ?a" by (simp add: is_expired_def)
  from status_moves_forward[of _ "''a1''" _ _ ?ops "ledger_a1 DENIED" EXPIRED] h1 h2 h3
  have "may_become DENIED EXPIRED" by auto
  moreover from status_moves_forward[of _ "''a1''" _ _ _ "ledger_a1 APPROVED" _ ?a 301000000] h4 h5
  have "status_in (snd (get_approval_status (ledger_a1 APPROVED) 301000000 ''a1'')) ''a1'' = Some EXPIRED
   \<and> status_in (snd (get_pending_approvals (ledger_a1 APPROVED) 301000000)) ''a1'' = None
   \<and> status_in (snd (cleanup_expired_approvals (ledger_a1 APPROVED) 301000000)) ''a1'' = None"
    by blast
  ultimately show ?thesis using h2 by blast
qed

text \<open>
  C4, as stated, fails: a request that has reached \<open>APPROVED\<close> is set to \<open>EXPIRED\<close> by
  \<open>get_approval_status\<close> once \<open>expires_at\<close> has passed, since the expiry test there does not
  look at the status.
\<close>

theorem approved_request_expires_counterexample:
  "status_in (run_ops simple_approval_manager
       [Create ''a1'' 0 ''DROP TABLE users'', Approve ''a1'' ''alice'' 10]) ''a1'' = Some APPROVED
   \<and> status_in (run_ops simple_approval_manager
       [Create ''a1'' 0 ''DROP TABLE users'', Approve ''a1'' ''alice'' 10,
        Get_status ''a1'' 301000000]) ''a1'' = Some EXPIRED"
  by (simp add: run_ops_def simple_approval_manager_def create_approval_request_def Let_def
        approve_operation_def get_approval_status_def is_expired_def map_of_set_approval
        status_in_set_approval)

lemma not_pending_stays:
  assumes "status_in m k \<noteq> Some PENDING" and "\<not> creates k op"
  shows "status_in (apply_op m op) k \<noteq> Some PENDING"
proof
  assume "status_in (apply_op m op) k = Some PENDING"
  from status_step[OF assms(2) this] obtain s where "status_in m k = Some s" "may_become s PENDING"
    by blast
  with assms(1) show False by (simp add: may_become_def)
qed

lemma decision_refused:
  assumes "status_in m k \<noteq> Some PENDING" and "decision m k op = Some r"
  shows "refused (status_in m k, r)"
  using assms
  by (cases op)
     (auto simp: approve_operation_def deny_operation_def status_in_def refused_def
        split: if_splits option.splits)

lemma decision_success:
  assumes "decision m k op = Some (Inr ok)"
  shows "status_in (apply_op m op) k \<noteq> Some PENDING"
  using assms
  by (cases op)
     (auto simp: approve_operation_def deny_operation_def status_in_set_approval
        split: if_splits option.splits)

lemma log_refused:
  assumes "status_in m k \<noteq> Some PENDING" and "\<forall>op \<in> set ops. \<not> creates k op"
  shows "list_all refused (decision_log m k ops)"
  using assms
proof (induction ops arbitrary: m)
  case Nil
  then show ?case by simp
next
  case (Cons op ops)
  from Cons.prems have nc: "\<not> creates k op" and tl: "\<forall>op \<in> set ops. \<not> creates k op" by simp_all
  have rest: "list_all refused (decision_log (apply_op m op) k ops)"
    by (rule Cons.IH[OF not_pending_stays[OF Cons.prems(1) nc] tl])
  show ?case
  proof (cases "decision m k op")
    case None
    with rest show ?thesis by simp
  next
    case (Some r)
    with decision_refused[OF Cons.prems(1) Some] rest show ?thesis by simp
  qed
qed

lemma log_once:
  assumes "\<forall>op \<in> set ops. \<not> creates k op"
  shows "once_then_refused (decision_log m k ops)"
  using assms
proof (induction ops arbitrary: m)
  case Nil
  then show ?case by simp
next
  case (Cons op ops)
  then have tl: "\<forall>op \<in> set ops. \<not> creates k op" by simp
  have IH: "once_then_refused (decision_log (apply_op m op) k ops)" by (rule Cons.IH[OF tl])
  show ?case
  proof (cases "decision m k op")
    case None
    with IH show ?thesis by simp
  next
    case (Some r)
    show ?thesis
    proof (cases r)
      case (Inl e)
      with Some IH show ?thesis by simp
    next
      case (Inr ok)
      with Some have "status_in (apply_op m op) k \<noteq> Some PENDING" by (simp add: decision_success)
      from log_refused[OF this tl] Some Inr show ?thesis by simp
    qed
  qed
qed

lemma once_count: "once_then_refused rs \<Longrightarrow> length (filter (\<lambda>e. \<not> isl (snd e)) rs) \<le> 1"
proof (induction rs rule: once_then_refused.induct)
  case (3 s ok rs)
  then have "filter (\<lambda>e. \<not> isl (snd e)) rs = []"
    by (auto simp: list_all_iff filter_empty_conv refused_def split: option.splits)
  then show ?case by simp
qed simp_all

lemma once_later:
  "once_then_refused rs \<Longrightarrow> i < j \<Longrightarrow> j < length rs \<Longrightarrow> \<not> isl (snd (rs ! i))
     \<Longrightarrow> refused (rs ! j)"
proof (induction rs arbitrary: i j rule: once_then_refused.induct)
  case 1
  then show ?case by simp
next
  case (2 s e rs)
  then obtain i' where i': "i = Suc i'" by (cases i) auto
  from 2 obtain j' where j': "j = Suc j'" by (cases j) auto
  from 2 i' j' show ?case by auto
next
  case (3 s ok rs)
  from 3 obtain j' where j': "j = Suc j'" by (cases j) auto
  with 3 have "j' < length rs" by simp
  with 3(1) j' show ?case by (auto simp: list_all_length)
qed

text \<open>
  C2, amended: over every sequence of ledger operations that does not create the id a
  second time (ids are fresh uuids), at most one decide call on the request succeeds, and
  every decide call after a successful one is refused, whoever calls it, with either
  outcome and at any time: with the error that the request is not pending while the
  ledger holds the request, and with the error that it is not found once a sweep has
  removed it.
\<close>

theorem decide_once_then_refused:
  assumes "\<forall>op \<in> set ops. \<not> creates k op"
  shows "length (filter (\<lambda>e. \<not> isl (snd e)) (decision_log m k ops)) \<le> 1
         \<and> (\<forall>i j. i < j \<and> j < length (decision_log m k ops)
                 \<and> \<not> isl (snd (decision_log m k ops ! i))
               \<longrightarrow> refused (decision_log m k ops ! j))"
  using log_once[OF assms, of m] once_count once_later by blast

theorem decide_once_then_refused_witness:
  "decision_log (ledger_a1 PENDING) ''a1''
        [Deny ''a1'' ''bob'' 5, Get_status ''a1'' 6, Approve ''a1'' ''alice'' 10, Sweep 20,
         Approve ''a1'' ''carol'' 30, List_pending 301000000, Deny ''a1'' ''eve'' 400000000]
      = [(Some PENDING, Inr (Denied_ok ''a1'')), (Some DENIED, Inl (Not_pending DENIED)),
         (Some DENIED, Inl (Not_pending DENIED)), (None, Inl Not_found)]
   \<and> length (filter (\<lambda>e. \<not> isl (snd e)) (decision_log (ledger_a1 PENDING) ''a1''
        [Deny ''a1'' ''bob'' 5, Get_status ''a1'' 6, Approve ''a1'' ''alice'' 10, Sweep 20,
         Approve ''a1'' ''carol'' 30, List_pending 301000000, Deny ''a1'' ''eve'' 400000000]))
      \<le> 1
   \<and> refused (Some DENIED, Inl (Not_pending DENIED))
   \<and> refused (None, Inl Not_found)"
proof -
  let ?ops = "[Deny ''a1'' ''bob'' 5, Get_status ''a1'' 6, Approve ''a1'' ''alice'' 10, Sweep 20,
         Approve ''a1'' ''carol'' 30, List_pending 301000000, Deny ''a1'' ''eve'' 400000000]"
  have h: "\<forall>op \<in> set ?ops. \<not> creates ''a1'' op" by simp
  have d: "decision_log (ledger_a1 PENDING) ''a1'' ?ops
      = [(Some PENDING, Inr (Denied_ok ''a1'')), (Some DENIED, Inl (Not_pending DENIED)),
         (Some DENIED, Inl (Not_pending DENIED)), (None, Inl Not_found)]"
    by (simp add: ledger_a1_def deny_operation_def approve_operation_def get_approval_status_def
          get_pending_approvals_def cleanup_expired_approvals_def mark_expired_def
          is_expired_def set_approval_def status_in_def AList.delete_eq)
  from decide_once_then_refused[OF h, of "ledger_a1 PENDING"]
  have c: "length (filter (\<lambda>e. \<not> isl (snd e)) (decision_log (ledger_a1 PENDING) ''a1'' ?ops)) \<le> 1"
    and r: "\<And>i j. i < j \<Longrightarrow> j < length (decision_log (ledger_a1 PENDING) ''a1'' ?ops)
        \<Longrightarrow> \<not> isl (snd (decision_log (ledger_a1 PENDING) ''a1'' ?ops ! i))
        \<Longrightarrow> refused (decision_log (ledger_a1 PENDING) ''a1'' ?ops ! j)"
    by blast+
  from r[of 0 1] d have r1: "refused (Some DENIED, Inl (Not_pending DENIED))" by simp
  from r[of 0 3] d have r3: "refused (None, Inl Not_found)" by simp
  from c d r1 r3 show ?thesis by blast
qed

text \<open>
  C2, as stated, fails: after a successful approve, a sweep made once the request has
  expired removes it, and the next decide call is refused as not found, not as not
  pending.
\<close>

theorem decide_after_sweep_counterexample:
  "decision_log (ledger_a1 PENDING) ''a1''
        [Approve ''a1'' ''alice'' 10, Sweep 301000000, Deny ''a1'' ''bob'' 302000000]
      = [(Some PENDING, Inr (Approved_ok ''a1'' ''DROP TABLE users'')), (None, Inl Not_found)]"
  by (simp add: ledger_a1_def deny_operation_def approve_operation_def
        cleanup_expired_approvals_def is_expired_def set_approval_def status_in_def AList.delete_eq)

text \<open>
  C3 at its failing input: a request created at time 0 with the default timeout of 300
  seconds is still \<open>PENDING\<close> and already expired at 301 seconds. \<open>get_approval_status\<close>
  reports it expired and \<open>approve_operation\<close> refuses it as expired; \<open>deny_operation\<close>,
  which has no expiry test, succeeds and sets \<open>DENIED\<close>.
\<close>

theorem deny_after_expiry_succeeds:
  "is_expired 301000000 (fst (create_approval_request simple_approval_manager ''a1'' 0 ''DROP TABLE users''))
   \<and> fst (get_approval_status (snd (create_approval_request simple_approval_manager ''a1'' 0 ''DROP TABLE users''))
             301000000 ''a1'') = Status_expired ''a1''
   \<and> (case approve_operation (snd (create_approval_request simple_approval_manager ''a1'' 0 ''DROP TABLE users''))
             301000000 ''a1'' ''bob'' of
        (r, m') \<Rightarrow> r = Inl Has_expired \<and> status_in m' ''a1'' = Some EXPIRED)
   \<and> (case deny_operation (snd (create_approval_request simple_approval_manager ''a1'' 0 ''DROP TABLE users''))
             301000000 ''a1'' ''bob'' of
        (r, m') \<Rightarrow> r = Inr (Denied_ok ''a1'') \<and> status_in m' ''a1'' = Some DENIED)"
  by (simp add: simple_approval_manager_def create_approval_request_def Let_def deny_operation_def
        approve_operation_def get_approval_status_def is_expired_def map_of_set_approval
        status_in_set_approval)

section \<open>Streaming sessions: proofs\<close>

lemma stop_free:
  assumes "\<not> session_lock R"
  shows "\<exists>r R'. stop_generation R k = Some (r, R') \<and> \<not> session_lock R'
           \<and> (\<forall>x. session_live R' x = (session_live R x \<and> x \<noteq> k))"
  using assms
  by (auto simp: stop_generation_def session_live_def update_conv' split: option.splits)

lemma handle_free:
  assumes "\<not> session_lock R"
  shows "\<exists>R'. handle R q = Some R' \<and> \<not> session_lock R'
           \<and> (\<forall>x. session_live R' x = (session_live R x \<and> Stop x \<noteq> q))"
proof (cases q)
  case (Stop k)
  from stop_free[OF assms, of k] Stop show ?thesis by auto
next
  case Get_sessions
  with assms show ?thesis by (simp add: get_active_sessions_def)
qed

lemma serve_free:
  assumes "\<not> session_lock R"
  shows "\<exists>R'. serve R qs = Some R' \<and> \<not> session_lock R'
           \<and> (\<forall>x. session_live R' x = (session_live R x \<and> Stop x \<notin> set qs))"
  using assms
proof (induction qs arbitrary: R)
  case Nil
  then show ?case by simp
next
  case (Cons q qs)
  from handle_free[OF Cons.prems, of q] obtain R1 where
    h: "handle R q = Some R1" "\<not> session_lock R1"
       "\<forall>x. session_live R1 x = (session_live R x \<and> Stop x \<noteq> q)" by blast
  from Cons.IH[OF h(2)] obtain R2 where
    s: "serve R1 qs = Some R2" "\<not> session_lock R2"
       "\<forall>x. session_live R2 x = (session_live R1 x \<and> Stop x \<notin> set qs)" by blast
  from h s show ?case by auto
qed

lemma handle_held: "session_lock R \<Longrightarrow> handle R q = None"
  by (cases q) (simp_all add: stop_generation_def get_active_sessions_def)

lemma serve_held: "session_lock R \<Longrightarrow> serve R qs = (if qs = [] then Some R else None)"
  by (cases qs) (simp_all add: handle_held)

lemma stopped_yield_trace:
  "fst (stopped_yield sched t k n R) = [Yield (stopped_event t k)]"
  by (simp add: stopped_yield_def split: option.splits)

lemma stopped_yield_ending:
  "snd (snd (stopped_yield sched t k n R)) = (if sched n = [] then Return else Blocked)"
  by (simp add: stopped_yield_def serve_held)

lemma stopped_yield_registry:
  "sched n = [] \<Longrightarrow> fst (snd (stopped_yield sched t k n R)) = R\<lparr> session_lock := False \<rparr>"
  by (simp add: stopped_yield_def serve_held)

lemma text_steps_simps:
  "text_steps t k words [] = []"
  "text_steps t k words (i # ixs) = Yield (text_event t k words i) # Sleep # text_steps t k words ixs"
  by (simp_all add: text_steps_def)

lemma loop_dead:
  assumes "\<not> session_lock R" and "\<not> session_live R k"
  shows "stream_loop sched t k words ixs n R
           = (if ixs = [] then ([], R, Completed) else stopped_yield sched t k n R)"
  using assms by (cases ixs) simp_all

lemma loop_unlocked:
  assumes "\<not> session_lock R"
    and "snd (snd (stream_loop sched t k words ixs n R)) \<noteq> Blocked"
  shows "\<not> session_lock (fst (snd (stream_loop sched t k words ixs n R)))"
  using assms
proof (induction ixs arbitrary: n R)
  case Nil
  then show ?case by simp
next
  case (Cons i ixs)
  from serve_free[OF Cons.prems(1), of "sched n"] obtain R1 where
    s1: "serve R (sched n) = Some R1" "\<not> session_lock R1" by blast
  from serve_free[OF s1(2), of "sched (n + 1)"] obtain R2 where
    s2: "serve R1 (sched (n + 1)) = Some R2" "\<not> session_lock R2" by blast
  show ?case
  proof (cases "session_live R k")
    case False
    with Cons.prems show ?thesis
      by (simp add: stopped_yield_def serve_held split: if_splits)
  next
    case live: True
    show ?thesis
    proof (cases "session_live R1 k")
      case False
      with Cons.prems live s1 show ?thesis
        by (simp add: stopped_yield_def serve_held split: if_splits)
    next
      case True
      from Cons.prems live True s1 s2
      have nb: "snd (snd (stream_loop sched t k words ixs (n + 2) R2)) \<noteq> Blocked"
        by (simp add: case_prod_beta)
      from Cons.IH[OF s2(2) nb] Cons.prems live True s1 s2 show ?thesis
        by (simp add: case_prod_beta)
    qed
  qed
qed

lemma loop_stop:
  assumes "\<not> session_lock R" and "session_live R k"
    and "Stop k \<in> set (sched (n + d))" and "\<forall>i < d. Stop k \<notin> set (sched (n + i))"
  shows "fst (stream_loop sched t k words ixs n R)
           = take (Suc d) (text_steps t k words ixs)
             @ (if Suc d < length (text_steps t k words ixs) then [Yield (stopped_event t k)] else [])
         \<and> snd (snd (stream_loop sched t k words ixs n R))
           = (if Suc d < length (text_steps t k words ixs)
              then (if sched (n + Suc d) = [] then Return else Blocked) else Completed)"
  using assms
proof (induction ixs arbitrary: n d R)
  case Nil
  then show ?case by (simp add: text_steps_simps)
next
  case (Cons i ixs)
  from serve_free[OF Cons.prems(1), of "sched n"] obtain R1 where
    s1: "serve R (sched n) = Some R1" "\<not> session_lock R1"
        "\<forall>x. session_live R1 x = (session_live R x \<and> Stop x \<notin> set (sched n))" by blast
  from serve_free[OF s1(2), of "sched (n + 1)"] obtain R2 where
    s2: "serve R1 (sched (n + 1)) = Some R2" "\<not> session_lock R2"
        "\<forall>x. session_live R2 x = (session_live R1 x \<and> Stop x \<notin> set (sched (n + 1)))" by blast
  show ?case
  proof (cases "d = 0")
    case True
    with Cons.prems s1 have "\<not> session_live R1 k" by simp
    with Cons.prems s1 True show ?thesis
      by (simp add: text_steps_simps case_prod_beta stopped_yield_trace stopped_yield_ending)
  next
    case False
    with Cons.prems s1 have live1: "session_live R1 k" by auto
    show ?thesis
    proof (cases "d = 1")
      case True
      with Cons.prems s2 have dead2: "\<not> session_live R2 k" by simp
      from loop_dead[OF s2(2) dead2] Cons.prems s1 s2 live1 True show ?thesis
        by (cases ixs)
           (simp_all add: text_steps_simps case_prod_beta stopped_yield_trace stopped_yield_ending)
    next
      case False
      with \<open>d \<noteq> 0\<close> obtain d' where d: "d = Suc (Suc d')" by (metis One_nat_def not0_implies_Suc)
      with Cons.prems have "Stop k \<notin> set (sched (n + 1))" by auto
      with s2 live1 have live2: "session_live R2 k" by simp
      from Cons.prems d have at: "Stop k \<in> set (sched (n + 2 + d'))" by (simp add: add.commute add.left_commute)
      have rest: "\<forall>i < d'. Stop k \<notin> set (sched (n + 2 + i))"
      proof (intro allI impI)
        fix i assume "i < d'"
        with d have "Suc (Suc i) < d" by simp
        with Cons.prems(4) have "Stop k \<notin> set (sched (n + Suc (Suc i)))" by blast
        then show "Stop k \<notin> set (sched (n + 2 + i))" by (simp add: add.commute add.left_commute)
      qed
      have L: "stream_loop sched t k words (i # ixs) n R
                 = (Yield (text_event t k words i) # Sleep
                      # fst (stream_loop sched t k words ixs (n + 2) R2),
                    snd (stream_loop sched t k words ixs (n + 2) R2))"
        using Cons.prems(1,2) s1(1,2) s2(1) live1 by (simp add: case_prod_beta)
      have IH: "fst (stream_loop sched t k words ixs (n + 2) R2)
           = take (Suc d') (text_steps t k words ixs)
             @ (if Suc d' < length (text_steps t k words ixs) then [Yield (stopped_event t k)] else [])
         \<and> snd (snd (stream_loop sched t k words ixs (n + 2) R2))
           = (if Suc d' < length (text_steps t k words ixs)
              then (if sched (n + 2 + Suc d') = [] then Return else Blocked) else Completed)"
        by (rule Cons.IH[OF s2(2) live2 at rest])
      show ?thesis unfolding L d using IH by (simp add: text_steps_simps)
    qed
  qed
qed


lemma yielded_simps:
  "yielded [] = []"
  "yielded (Yield e # tr) = e # yielded tr"
  "yielded (Sleep # tr) = yielded tr"
  "yielded (tr @ tr') = yielded tr @ yielded tr'"
  by (simp_all add: yielded_def)

lemma text_chunks_simps:
  "text_chunks [] = []"
  "text_chunks (text_event t k words i # evs) = chunk_text words i # text_chunks evs"
  "text_chunks (stopped_event t k # evs) = text_chunks evs"
  "text_chunks (evs @ evs') = text_chunks evs @ text_chunks evs'"
  by (simp_all add: text_chunks_def text_event_def stopped_event_def)

lemma texts_of_take:
  "text_chunks (yielded (take j (text_steps t k words ixs)))
     = take ((j + 1) div 2) (map (chunk_text words) ixs)"
proof (induction ixs arbitrary: j)
  case Nil
  then show ?case by (simp add: text_steps_simps yielded_simps text_chunks_simps)
next
  case (Cons i ixs)
  show ?case
  proof (cases j)
    case 0
    then show ?thesis by (simp add: yielded_simps text_chunks_simps)
  next
    case (Suc j1)
    show ?thesis
    proof (cases j1)
      case 0
      with Suc show ?thesis by (simp add: text_steps_simps yielded_simps text_chunks_simps)
    next
      case (Suc j2)
      with \<open>j = Suc j1\<close> Cons.IH[of j2] show ?thesis
        by (simp add: text_steps_simps yielded_simps text_chunks_simps)
    qed
  qed
qed

lemma finish_free:
  assumes "\<not> session_lock R"
  shows "finish tr R k e = (tr, R\<lparr> active_sessions := AList.delete k (active_sessions R) \<rparr>, e)"
  using assms by (simp add: finish_def unregister_def)

lemma mark_completed_free:
  assumes "\<not> session_lock R"
  shows "\<exists>R'. mark_completed R k = Some R' \<and> \<not> session_lock R'"
  using assms by (simp add: mark_completed_def split: option.splits)

lemma text_stream:
  assumes free: "\<not> session_lock R" and plain: "\<not> is_approval_response response"
  shows "fst (generate_stream sched response t k R)
           = fst (stream_loop sched t k (split response) (range2 (length (split response))) 1
                    (the (serve R (sched 0))))
         \<and> snd (snd (generate_stream sched response t k R))
           = snd (snd (stream_loop sched t k (split response) (range2 (length (split response))) 1
                    (the (serve R (sched 0)))))
         \<and> (snd (snd (generate_stream sched response t k R)) \<noteq> Blocked \<longrightarrow>
              k \<notin> fst ` set (active_sessions (fst (snd (generate_stream sched response t k R))))
              \<and> \<not> session_lock (fst (snd (generate_stream sched response t k R))))"
proof -
  from serve_free[OF free, of "sched 0"] obtain R0 where
    s0: "serve R (sched 0) = Some R0" "\<not> session_lock R0" by blast
  let ?L = "stream_loop sched t k (split response) (range2 (length (split response))) 1 R0"
  obtain tr R1 e where L: "?L = (tr, R1, e)" by (cases ?L) auto
  show ?thesis
  proof (cases e)
    case Blocked
    with L s0 plain show ?thesis by (simp add: generate_stream_def Let_def)
  next
    case Return
    with L loop_unlocked[OF s0(2), of sched t k "split response" "range2 (length (split response))" 1]
    have "\<not> session_lock R1" by simp
    with L s0 plain Return show ?thesis
      by (simp add: generate_stream_def Let_def finish_free delete_notin_dom)
  next
    case Completed
    with L loop_unlocked[OF s0(2), of sched t k "split response" "range2 (length (split response))" 1]
    have "\<not> session_lock R1" by simp
    from mark_completed_free[OF this, of k] obtain R2 where
      "mark_completed R1 k = Some R2" "\<not> session_lock R2" by blast
    with L s0 plain Completed show ?thesis
      by (simp add: generate_stream_def Let_def finish_free delete_notin_dom)
  qed
qed

lemma approval_stream:
  assumes free: "\<not> session_lock R" and gate: "is_approval_response response"
  shows "fst (generate_stream sched response t k R) = [Yield (approval_event response t k)]
         \<and> snd (snd (generate_stream sched response t k R)) = Return
         \<and> k \<notin> fst ` set (active_sessions (fst (snd (generate_stream sched response t k R))))"
proof -
  from serve_free[OF free, of "sched 0"] obtain R0 where
    s0: "serve R (sched 0) = Some R0" "\<not> session_lock R0" by blast
  from serve_free[OF s0(2), of "sched 1"] obtain R1 where
    s1: "serve R0 (sched 1) = Some R1" "\<not> session_lock R1" by blast
  from s0 s1 gate show ?thesis
    by (simp add: generate_stream_def finish_free delete_notin_dom)
qed

text \<open>
  C6, amended. In a stream that starts with the lock free, a reply that is streamed as
  text is cut at the first suspension that follows a stop: the session is tested under
  the lock before each text chunk and again after it, before the sleep. If the first
  \<open>/stop\<close> for the session is served during suspension \<open>j\<close> (0 before the generator starts,
  then the chunks and the sleeps in turn), the stream goes through the first \<open>j\<close>
  suspensions of the unstopped stream and then, if the unstopped stream had more, yields
  the \<open>stopped\<close> chunk and returns; so no text chunk follows the stop, and the text chunks
  that reach the caller are exactly the first \<open>(j + 1) div 2\<close> of the response. The
  \<open>stopped\<close> chunk is yielded with the lock held: a request for the lock that is served
  while that chunk is being sent blocks the event loop, and the stream never finishes;
  otherwise the stream finishes, with the session removed from the registry and the lock
  free. A reply that asks for an approval is sent whole, as one chunk and without a test
  of the session, whatever has been stopped. Suspension 3 is the \<open>yield\<close> of the second
  chunk: a stop there leaves exactly 2 text chunks of 5, with no sleep between the second
  and the \<open>stopped\<close> chunk.
\<close>

theorem stop_cuts_stream:
  assumes "\<not> session_lock R"
  shows "(session_live R k \<and> \<not> is_approval_response response
            \<and> Stop k \<in> set (sched j) \<and> (\<forall>i < j. Stop k \<notin> set (sched i)) \<longrightarrow>
          fst (generate_stream sched response t k R)
            = take j (full_steps t k response)
              @ (if j < length (full_steps t k response) then [Yield (stopped_event t k)] else [])
          \<and> text_chunks (yielded (fst (generate_stream sched response t k R)))
            = take ((j + 1) div 2) (response_chunks response)
          \<and> snd (snd (generate_stream sched response t k R))
            = (if j < length (full_steps t k response)
               then (if sched (Suc j) = [] then Return else Blocked) else Completed)
          \<and> (snd (snd (generate_stream sched response t k R)) \<noteq> Blocked \<longrightarrow>
               k \<notin> fst ` set (active_sessions (fst (snd (generate_stream sched response t k R))))
               \<and> \<not> session_lock (fst (snd (generate_stream sched response t k R)))))
         \<and> (is_approval_response response \<longrightarrow>
              yielded (fst (generate_stream sched response t k R)) = [approval_event response t k]
              \<and> snd (snd (generate_stream sched response t k R)) = Return
              \<and> k \<notin> fst ` set (active_sessions (fst (snd (generate_stream sched response t k R)))))"
proof (intro conjI impI)
  assume gate: "is_approval_response response"
  from approval_stream[OF assms gate, of sched t k]
  show "yielded (fst (generate_stream sched response t k R)) = [approval_event response t k]"
    and "snd (snd (generate_stream sched response t k R)) = Return"
    and "k \<notin> fst ` set (active_sessions (fst (snd (generate_stream sched response t k R))))"
    by (simp_all add: yielded_simps)
next
  assume h: "session_live R k \<and> \<not> is_approval_response response
            \<and> Stop k \<in> set (sched j) \<and> (\<forall>i < j. Stop k \<notin> set (sched i))"
  let ?G = "generate_stream sched response t k R"
  let ?words = "split response"
  let ?full = "full_steps t k response"
  from serve_free[OF assms, of "sched 0"] obtain R0 where
    s0: "serve R (sched 0) = Some R0" "\<not> session_lock R0"
        "\<forall>x. session_live R0 x = (session_live R x \<and> Stop x \<notin> set (sched 0))" by blast
  let ?L = "stream_loop sched t k ?words (range2 (length ?words)) 1 R0"
  from h have plain: "\<not> is_approval_response response" by simp
  note G = text_stream[OF assms plain, of sched t k, unfolded s0(1) option.sel]
  have loop: "fst ?L = take j ?full @ (if j < length ?full then [Yield (stopped_event t k)] else [])
      \<and> snd (snd ?L)
          = (if j < length ?full then (if sched (Suc j) = [] then Return else Blocked) else Completed)"
  proof (cases j)
    case 0
    with h s0 have dead: "\<not> session_live R0 k" by simp
    from loop_dead[OF s0(2) dead, of sched t ?words "range2 (length ?words)" 1] 0
    show ?thesis
      by (cases "range2 (length ?words)")
         (simp_all add: full_steps_def text_steps_simps stopped_yield_trace stopped_yield_ending)
  next
    case (Suc d)
    with h s0 have live: "session_live R0 k" by auto
    from h Suc have at: "Stop k \<in> set (sched (1 + d))" by simp
    from h Suc have rest: "\<forall>i < d. Stop k \<notin> set (sched (1 + i))" by auto
    from loop_stop[OF s0(2) live at rest, of t ?words "range2 (length ?words)"] Suc
    show ?thesis by (simp add: full_steps_def)
  qed
  from G loop
  show trace: "fst ?G = take j ?full @ (if j < length ?full then [Yield (stopped_event t k)] else [])"
    by simp
  show "text_chunks (yielded (fst ?G)) = take ((j + 1) div 2) (response_chunks response)"
    unfolding trace
    by (simp add: yielded_simps text_chunks_simps full_steps_def texts_of_take response_chunks_def)
  from G loop
  show "snd (snd ?G)
          = (if j < length ?full then (if sched (Suc j) = [] then Return else Blocked) else Completed)"
    by simp
  from G show "k \<notin> fst ` set (active_sessions (fst (snd ?G)))" if "snd (snd ?G) \<noteq> Blocked"
    using that by simp
  from G show "\<not> session_lock (fst (snd ?G))" if "snd (snd ?G) \<noteq> Blocked"
    using that by simp
qed

theorem stop_cuts_stream_witness:
  "fst (generate_stream (stop_at 3) ''a b c d e f g h i j'' ''t1'' ''s1'' (one_session True))
     = [Yield (text_event ''t1'' ''s1'' (split ''a b c d e f g h i j'') 0), Sleep,
        Yield (text_event ''t1'' ''s1'' (split ''a b c d e f g h i j'') 2),
        Yield (stopped_event ''t1'' ''s1'')]
   \<and> text_chunks (yielded (fst (generate_stream (stop_at 3) ''a b c d e f g h i j'' ''t1'' ''s1''
        (one_session True)))) = [''a b '', ''c d '']
   \<and> length (response_chunks ''a b c d e f g h i j'') = 5
   \<and> snd (snd (generate_stream (stop_at 3) ''a b c d e f g h i j'' ''t1'' ''s1'' (one_session True)))
       = Return
   \<and> ''s1'' \<notin> fst ` set (active_sessions (fst (snd (generate_stream (stop_at 3)
        ''a b c d e f g h i j'' ''t1'' ''s1'' (one_session True)))))
   \<and> \<not> session_lock (fst (snd (generate_stream (stop_at 3) ''a b c d e f g h i j'' ''t1'' ''s1''
        (one_session True))))
   \<and> yielded (fst (generate_stream (stop_at 5) gate_reply ''t1'' ''s1'' (one_session True)))
       = [approval_event gate_reply ''t1'' ''s1'']"
proof -
  have h0: "\<not> session_lock (one_session True)" by (simp add: one_session_def)
  have h1: "session_live (one_session True) ''s1''" by (simp add: one_session_def session_live_def)
  have h2: "\<not> is_approval_response ''a b c d e f g h i j''" by code_simp
  have h3: "Stop ''s1'' \<in> set (stop_at 3 3)" by (simp add: stop_at_def)
  have h4: "\<forall>i < 3. Stop ''s1'' \<notin> set (stop_at 3 i)" by (simp add: stop_at_def)
  have h5: "stop_at 3 (Suc 3) = []" by (simp add: stop_at_def)
  have g: "is_approval_response gate_reply" by code_simp
  have w: "split ''a b c d e f g h i j''
             = [''a'', ''b'', ''c'', ''d'', ''e'', ''f'', ''g'', ''h'', ''i'', ''j'']" by code_simp
  have l: "length (split ''a b c d e f g h i j'') = 10" by (simp add: w)
  have r: "range2 10 = [0, 2, 4, 6, 8]" by code_simp
  have c: "response_chunks ''a b c d e f g h i j'' = [''a b '', ''c d '', ''e f '', ''g h '', ''i j'']"
    by code_simp
  have f: "full_steps ''t1'' ''s1'' ''a b c d e f g h i j''
             = [Yield (text_event ''t1'' ''s1'' (split ''a b c d e f g h i j'') 0), Sleep,
                Yield (text_event ''t1'' ''s1'' (split ''a b c d e f g h i j'') 2), Sleep,
                Yield (text_event ''t1'' ''s1'' (split ''a b c d e f g h i j'') 4), Sleep,
                Yield (text_event ''t1'' ''s1'' (split ''a b c d e f g h i j'') 6), Sleep,
                Yield (text_event ''t1'' ''s1'' (split ''a b c d e f g h i j'') 8), Sleep]"
    unfolding full_steps_def text_steps_def l r by simp
  from stop_cuts_stream[OF h0, of "''s1''" "''a b c d e f g h i j''" "stop_at 3" 3 "''t1''"]
       stop_cuts_stream[OF h0, of "''s1''" gate_reply "stop_at 5" 0 "''t1''"]
       h1 h2 h3 h4 h5 g c f
  show ?thesis by auto
qed

text \<open>
  C6, as stated, fails for a reply that asks for an approval: the session is stopped before
  the generator starts, and the reply is still sent to the caller, in one chunk that
  carries its whole text; no test of the session precedes or follows that chunk.
\<close>

theorem approval_sent_after_stop_counterexample:
  "serve (one_session True) (stop_at 0 0) = Some (one_session False)
   \<and> \<not> session_live (one_session False) ''s1''
   \<and> yielded (fst (generate_stream (stop_at 0) gate_reply ''t1'' ''s1'' (one_session True)))
       = [approval_event gate_reply ''t1'' ''s1'']
   \<and> ev_chunk (approval_event gate_reply ''t1'' ''s1'') = gate_reply"
proof -
  have g: "is_approval_response gate_reply" by code_simp
  have s0: "serve (one_session True) (stop_at 0 0) = Some (one_session False)"
    by (simp add: stop_at_def one_session_def stop_generation_def)
  have s1: "serve (one_session False) (stop_at 0 1) = Some (one_session False)"
    by (simp add: stop_at_def)
  have d: "\<not> session_live (one_session False) ''s1''"
    by (simp add: one_session_def session_live_def)
  have y: "yielded (fst (generate_stream (stop_at 0) gate_reply ''t1'' ''s1'' (one_session True)))
       = [approval_event gate_reply ''t1'' ''s1'']"
    using g s0 s1 by (simp add: generate_stream_def finish_def yielded_def split: option.splits)
  from s0 d y show ?thesis by (simp add: approval_event_def)
qed

text \<open>
  C7, amended. A call of \<open>stop_generation\<close> that finds the lock free returns, leaves the
  lock free, and succeeds exactly when the session id is registered, whether the session
  is still active or not. For an id that is not registered (unknown, or completed and
  removed) it fails with 404 and changes nothing; when it succeeds, the session's
  \<open>is_active\<close> is \<open>False\<close> afterwards and nothing else in the registry changes.
\<close>

theorem stop_succeeds_iff_registered:
  assumes "\<not> session_lock R"
  shows "\<exists>r R'. stop_generation R k = Some (r, R') \<and> \<not> session_lock R'
           \<and> (isl r \<longleftrightarrow> map_of (active_sessions R) k = None)
           \<and> (map_of (active_sessions R) k = None \<longrightarrow>
                r = Inl (HTTPException 404 ''Session not found or already completed'') \<and> R' = R)
           \<and> (\<forall>ss. map_of (active_sessions R) k = Some ss \<longrightarrow>
                r = Inr k
                \<and> map_of (active_sessions R')
                    = (map_of (active_sessions R))(k \<mapsto> ss\<lparr> ss_is_active := False \<rparr>)
                \<and> map fst (active_sessions R') = map fst (active_sessions R))"
proof (cases "map_of (active_sessions R) k")
  case None
  with assms show ?thesis by (simp add: stop_generation_def)
next
  case (Some ss)
  then have "(k, ss) \<in> set (active_sessions R)" by (rule map_of_SomeD)
  then have "k \<in> fst ` set (active_sessions R)" by force
  with Some assms show ?thesis
    by (simp add: stop_generation_def update_conv' update_keys)
qed

theorem stop_succeeds_iff_registered_witness:
  "stop_generation (one_session False) ''s1'' = Some (Inr ''s1'', one_session False)
   \<and> stop_generation (one_session False) ''s2''
       = Some (Inl (HTTPException 404 ''Session not found or already completed''), one_session False)"
proof -
  have f: "\<not> session_lock (one_session False)" by (simp add: one_session_def)
  have h: "map_of (active_sessions (one_session False)) ''s1'' =
             Some \<lparr> ss_thread_id = ''t1'', ss_is_active = False, ss_query = ''list the tables'' \<rparr>"
    by (simp add: one_session_def)
  have n: "map_of (active_sessions (one_session False)) ''s2'' = None" by (simp add: one_session_def)
  have u: "stop_generation (one_session False) ''s1'' = Some (Inr ''s1'', one_session False)"
    by (simp add: stop_generation_def one_session_def)
  from stop_succeeds_iff_registered[OF f, of "''s1''"] h
       stop_succeeds_iff_registered[OF f, of "''s2''"] n u
  show ?thesis by auto
qed

text \<open>
  C7, as stated, fails: a session that is registered but already inactive (stopped once, its
  stream not yet resumed) is stopped again with success, not refused as not found. The
  lock is free at each of the calls.
\<close>

theorem stop_inactive_session_counterexample:
  "register_session \<lparr> active_sessions = [], session_lock = False \<rparr> ''s1'' ''t1'' ''list the tables''
     = Some (one_session True)
   \<and> stop_generation (one_session True) ''s1'' = Some (Inr ''s1'', one_session False)
   \<and> \<not> session_live (one_session False) ''s1''
   \<and> stop_generation (one_session False) ''s1'' = Some (Inr ''s1'', one_session False)"
  by (simp add: register_session_def stop_generation_def session_live_def one_session_def)


section \<open>Classification of statements: proofs\<close>

lemma of_char_lower: 
  "(of_char (lower_char c) :: nat) =
     (if 65 \<le> (of_char c :: nat) \<and> (of_char c :: nat) \<le> 90 then of_char c + 32 else of_char c)"
  by (simp add: lower_char_def Let_def)

lemma of_char_upper: 
  "(of_char (upper_char c) :: nat) =
     (if 97 \<le> (of_char c :: nat) \<and> (of_char c :: nat) \<le> 122 then of_char c - 32 else of_char c)"
proof -
  have "(of_char c :: nat) < 256" by simp
  then show ?thesis by (auto simp: upper_char_def Let_def)
qed

lemma lower_eq_upper_eq:
  assumes "lower_char c = lower_char k"
  shows "upper_char c = upper_char k"
proof -
  from assms have "(of_char (lower_char c) :: nat) = of_char (lower_char k)" by simp
  then have "(of_char (upper_char c) :: nat) = of_char (upper_char k)"
    unfolding of_char_lower of_char_upper by (auto split: if_splits)
  then show ?thesis by simp
qed

lemma space_upper [simp]: "is_space (upper_char c) = is_space c"
  unfolding is_space_def Let_def of_char_upper by auto

lemma space_lower_id: "is_space c \<Longrightarrow> lower_char c = c"
  by (auto simp: is_space_def lower_char_def Let_def)

lemma lit_Cons: "lit (k # K) @ p = (Ch k, One) # (lit K @ p)"
  by (simp add: lit_def)

lemma lit_prefix:
  "rx_ends (lit K @ p) s \<noteq> [] \<Longrightarrow>
     length K \<le> length s \<and> lower (take (length K) s) = lower K"
proof (induction K arbitrary: s)
  case Nil
  then show ?case by (simp add: lower_def)
next
  case (Cons k K)
  show ?case
  proof (cases s)
    case Nil
    with Cons.prems show ?thesis by (simp add: lit_Cons)
  next
    case (Cons c cs)
    with Cons.prems have ok: "lower_char c = lower_char k" and rest: "rx_ends (lit K @ p) cs \<noteq> []"
      by (auto simp: lit_Cons split: if_splits)
    from Cons.IH[OF rest] ok Cons show ?thesis by (simp add: lower_def)
  qed
qed

lemma leading_keyword_match:
  assumes "rx_match (sp0 @ lit (k # K) @ p) s" and "\<not> is_space (lower_char k)"
  shows "leading_keyword s (k # K)"
  using assms(1)
proof (induction s)
  case Nil
  then show ?case by (simp add: rx_match_def sp0_def lit_Cons)
next
  case (Cons c cs)
  show ?case
  proof (cases "is_space c")
    case True
    with assms(2) have "lower_char c \<noteq> lower_char k" by (auto simp: space_lower_id)
    with Cons.prems True have "rx_match (sp0 @ lit (k # K) @ p) cs"
      by (simp add: rx_match_def sp0_def lit_Cons)
    from Cons.IH[OF this] True show ?thesis by (simp add: leading_keyword_def)
  next
    case False
    with Cons.prems have "rx_ends (lit (k # K) @ p) (c # cs) \<noteq> []"
      by (simp add: rx_match_def sp0_def)
    from lit_prefix[OF this] False show ?thesis by (simp add: leading_keyword_def)
  qed
qed

lemma leading_keyword_take:
  assumes "leading_keyword s kw" and "n \<le> length kw"
  shows "lower (take n (dropWhile is_space s)) = take n (lower kw)"
proof -
  from assms have "take n (lower kw) = take n (lower (take (length kw) (dropWhile is_space s)))"
    by (simp add: leading_keyword_def)
  also have "\<dots> = lower (take n (dropWhile is_space s))"
    using assms(2) by (simp add: lower_def take_map min_def)
  finally show ?thesis by simp
qed

lemma lower_keywords:
  "take 3 (lower ''SELECT'') = ''sel''" "take 3 (lower ''INSERT'') = ''ins''"
  "take 3 (lower ''CREATE'') = ''cre''" "take 3 (lower ''SHOW'') = ''sho''"
  "take 3 (lower ''DESCRIBE'') = ''des''" "take 3 (lower ''DROP'') = ''dro''"
  "take 3 (lower ''DELETE'') = ''del''" "take 3 (lower ''ALTER'') = ''alt''"
  "take 3 (lower ''TRUNCATE'') = ''tru''" "take 3 (lower ''UPDATE'') = ''upd''"
  by code_simp+

lemma not_space_letters:
  "\<not> is_space (lower_char CHR ''D'')" "\<not> is_space (lower_char CHR ''A'')"
  "\<not> is_space (lower_char CHR ''T'')" "\<not> is_space (lower_char CHR ''U'')"
  "\<not> is_space (lower_char CHR ''S'')" "\<not> is_space (lower_char CHR ''I'')"
  "\<not> is_space (lower_char CHR ''C'')"
  by code_simp+

lemma dangerous_leading_keyword:
  assumes "list_ex (\<lambda>p. rx_match p s) dangerous_patterns"
  shows "\<exists>K \<in> set [''DROP'', ''DELETE'', ''ALTER'', ''TRUNCATE'', ''UPDATE'']. leading_keyword s K"
proof -
  from assms consider
      "rx_match (sp0 @ lit ''DROP'' @ sp1) s"
    | "rx_match (sp0 @ lit ''DELETE'' @ sp1 @ lit ''FROM'' @ sp1) s"
    | "rx_match (sp0 @ lit ''ALTER'' @ sp1 @ lit ''TABLE'' @ sp1) s"
    | "rx_match (sp0 @ lit ''TRUNCATE'' @ sp1 @ lit ''TABLE'' @ sp1) s"
    | "rx_match (sp0 @ lit ''UPDATE'' @ sp1 @ dots @ sp1 @ lit ''SET'' @ sp1 @ dots @ sp1 @ lit ''WHERE''
        @ sp1 @ lit ''1'' @ sp0 @ lit ''='' @ sp0 @ lit ''1'') s"
    by (auto simp: dangerous_patterns_def)
  then show ?thesis
  proof cases
    case 1 from leading_keyword_match[OF this not_space_letters(1)] show ?thesis by simp
  next
    case 2 from leading_keyword_match[OF this not_space_letters(1)] show ?thesis by simp
  next
    case 3 from leading_keyword_match[OF this not_space_letters(2)] show ?thesis by simp
  next
    case 4 from leading_keyword_match[OF this not_space_letters(3)] show ?thesis by simp
  next
    case 5 from leading_keyword_match[OF this not_space_letters(4)] show ?thesis by simp
  qed
qed

lemma safe_keyword_not_dangerous:
  assumes "kw \<in> set [''SELECT'', ''INSERT'', ''CREATE'', ''SHOW'', ''DESCRIBE'']"
    and "leading_keyword s kw"
  shows "\<not> is_dangerous_operation s"
proof
  assume "is_dangerous_operation s"
  then have "list_ex (\<lambda>p. rx_match p s) dangerous_patterns"
    by (simp add: is_dangerous_operation_def split: if_splits)
  from dangerous_leading_keyword[OF this] obtain K where
    K: "K \<in> set [''DROP'', ''DELETE'', ''ALTER'', ''TRUNCATE'', ''UPDATE'']" "leading_keyword s K"
    by blast
  from K(1) have lK: "3 \<le> length K" by auto
  from assms(1) have lkw: "3 \<le> length kw" by auto
  from leading_keyword_take[OF K(2) lK] leading_keyword_take[OF assms(2) lkw]
  have eq: "take 3 (lower K) = take 3 (lower kw)" by simp
  from K(1) assms(1) eq show False
    by (auto simp: lower_keywords)
qed

lemma lower_eq_upper_eq_list:
  "map lower_char xs = map lower_char ys \<Longrightarrow> map upper_char xs = map upper_char ys"
proof (induction xs arbitrary: ys)
  case Nil
  then show ?case by simp
next
  case (Cons x xs)
  then obtain y ys' where ys: "ys = y # ys'" by (cases ys) auto
  with Cons.prems have hd: "lower_char x = lower_char y"
    and tl: "map lower_char xs = map lower_char ys'" by auto
  from hd have "upper_char x = upper_char y" by (rule lower_eq_upper_eq)
  with Cons.IH[OF tl] ys show ?case by simp
qed

lemma startswith_append: "startswith (A @ v) A"
  by (induction A) auto

lemma startswith_split: "startswith s A \<Longrightarrow> \<exists>v. s = A @ v"
  by (induction s A rule: startswith.induct) auto

lemma dropWhile_rev_last:
  "A \<noteq> [] \<Longrightarrow> \<not> P (last A) \<Longrightarrow> dropWhile P (rev A) = rev A"
  by (induction A rule: rev_induct) simp_all

lemma rstrip_keeps_prefix:
  assumes "A \<noteq> []" and "\<not> is_space (last A)"
  shows "\<exists>v. rev (dropWhile is_space (rev (A @ u))) = A @ v"
proof (cases "\<forall>x \<in> set (rev u). is_space x")
  case True
  then have "dropWhile is_space (rev u @ rev A) = dropWhile is_space (rev A)"
    by (intro dropWhile_append2) simp
  with dropWhile_rev_last[of A is_space] assms have "rev (dropWhile is_space (rev (A @ u))) = A @ []"
    by simp
  then show ?thesis by blast
next
  case False
  then obtain x where "x \<in> set (rev u)" "\<not> is_space x" by blast
  then have "dropWhile is_space (rev u @ rev A) = dropWhile is_space (rev u) @ rev A"
    by (rule dropWhile_append1)
  then have "rev (dropWhile is_space (rev (A @ u))) = A @ rev (dropWhile is_space (rev u))"
    by simp
  then show ?thesis by blast
qed

lemma leading_keyword_upper:
  assumes "leading_keyword s K" and "K \<noteq> []" and "\<not> is_space (last (upper K))"
  shows "startswith (strip (upper s)) (upper K)"
proof -
  let ?t = "dropWhile is_space s"
  have dw: "dropWhile is_space (upper s) = upper ?t"
    by (simp add: upper_def dropWhile_map comp_def)
  from assms(1) have "map lower_char (take (length K) ?t) = map lower_char K"
    by (simp add: leading_keyword_def lower_def)
  then have "map upper_char (take (length K) ?t) = map upper_char K"
    by (rule lower_eq_upper_eq_list)
  moreover have "map upper_char ?t
      = map upper_char (take (length K) ?t) @ map upper_char (drop (length K) ?t)"
    by (simp only: map_append[symmetric] append_take_drop_id)
  ultimately have split: "upper ?t = upper K @ upper (drop (length K) ?t)"
    by (simp only: upper_def)
  from assms(2) have ne: "upper K \<noteq> []" by (simp add: upper_def)
  from rstrip_keeps_prefix[OF ne assms(3), of "upper (drop (length K) ?t)"]
  obtain v where "rev (dropWhile is_space (rev (upper K @ upper (drop (length K) ?t)))) = upper K @ v"
    by blast
  then have "strip (upper s) = upper K @ v"
    by (simp only: strip_def dw split)
  then show ?thesis by (simp only: startswith_append)
qed

lemma mass_update_kind:
  assumes "rx_match (last dangerous_patterns) s"
  shows "oi_operation_type (get_operation_info s) = ''UPDATE''"
proof -
  from assms have "rx_match (sp0 @ lit ''UPDATE'' @ sp1 @ dots @ sp1 @ lit ''SET'' @ sp1 @ dots @ sp1
        @ lit ''WHERE'' @ sp1 @ lit ''1'' @ sp0 @ lit ''='' @ sp0 @ lit ''1'') s"
    by (simp add: dangerous_patterns_def)
  from leading_keyword_match[OF this not_space_letters(4)]
  have lk: "leading_keyword s ''UPDATE''" .
  have up: "upper ''UPDATE'' = ''UPDATE''" by code_simp
  have "\<not> is_space (last (upper ''UPDATE''))" by code_simp
  from leading_keyword_upper[OF lk _ this] have sw: "startswith (strip (upper s)) ''UPDATE''"
    by (simp add: up)
  then obtain r where r: "strip (upper s) = ''UPDATE'' @ r"
    using startswith_split by blast
  have kinds: "\<not> startswith (''UPDATE'' @ r) ''DROP''" "\<not> startswith (''UPDATE'' @ r) ''DELETE''"
    "\<not> startswith (''UPDATE'' @ r) ''ALTER''" "\<not> startswith (''UPDATE'' @ r) ''TRUNCATE''"
    "startswith (''UPDATE'' @ r) ''UPDATE''"
    by simp_all
  show ?thesis
    unfolding get_operation_info_def Let_def r by (simp only: kinds if_False if_True operation_info.simps)
qed

text \<open>
  C8, amended: the \<open>operation_type\<close> recorded in an approval request at its creation is one
  of \<open>DROP\<close>, \<open>DELETE\<close>, \<open>ALTER\<close>, \<open>TRUNCATE\<close>, \<open>UPDATE\<close> and \<open>UNKNOWN\<close>, the request
  is stored under its id, and a statement that matches the mass-update pattern (the last
  of the dangerous patterns) is recorded with the kind \<open>UPDATE\<close>.
\<close>

theorem recorded_kind:
  "ap_operation_type (fst (create_approval_request m k now s))
     \<in> set [''DROP'', ''DELETE'', ''ALTER'', ''TRUNCATE'', ''UPDATE'', ''UNKNOWN'']
   \<and> map_of (pending_approvals (snd (create_approval_request m k now s))) k
       = Some (fst (create_approval_request m k now s))
   \<and> (rx_match (last dangerous_patterns) s \<longrightarrow>
        ap_operation_type (fst (create_approval_request m k now s)) = ''UPDATE'')"
proof -
  have kind: "ap_operation_type (fst (create_approval_request m k now s))
      = oi_operation_type (get_operation_info s)"
    by (simp add: create_approval_request_def Let_def)
  have "oi_operation_type (get_operation_info s)
     \<in> set [''DROP'', ''DELETE'', ''ALTER'', ''TRUNCATE'', ''UPDATE'', ''UNKNOWN'']"
    by (simp add: get_operation_info_def Let_def)
  moreover have "map_of (pending_approvals (snd (create_approval_request m k now s))) k
       = Some (fst (create_approval_request m k now s))"
    by (simp add: create_approval_request_def Let_def set_approval_def update_conv')
  ultimately show ?thesis using mass_update_kind[of s] kind by simp
qed

theorem recorded_kind_witness:
  "rx_match (last dangerous_patterns) ''update users set active = 0 where 1 = 1''
   \<and> ap_operation_type (fst (create_approval_request simple_approval_manager ''a1'' 0
         ''update users set active = 0 where 1 = 1'')) = ''UPDATE''"
proof -
  have h: "rx_match (last dangerous_patterns) ''update users set active = 0 where 1 = 1''"
    by code_simp
  from recorded_kind[of simple_approval_manager "''a1''" 0 "''update users set active = 0 where 1 = 1''"] h
  show ?thesis by blast
qed

text \<open>
  C8, as stated, fails: the unconditional mass update is dangerous, and the request
  created for it records the kind \<open>UPDATE\<close>, which is not among the kinds of the claim;
  \<open>get_operation_info\<close> has no kind \<open>MASS_UPDATE\<close>.
\<close>

theorem mass_update_kind_counterexample:
  "is_dangerous_operation ''UPDATE users SET active = 0 WHERE 1=1''
   \<and> ap_operation_type (fst (create_approval_request simple_approval_manager ''a1'' 0
         ''UPDATE users SET active = 0 WHERE 1=1'')) = ''UPDATE''
   \<and> ''UPDATE'' \<notin> set [''DROP'', ''DELETE'', ''ALTER'', ''TRUNCATE'', ''MASS_UPDATE'', ''UNKNOWN'']"
  by code_simp

section \<open>The conversation workflow: proofs\<close>

lemma check_and_execute_safe:
  assumes "\<not> is_dangerous_operation q"
  shows "w_manager (snd (check_and_execute env st w q)) = w_manager w
         \<and> needs_human_approval (fst (check_and_execute env st w q)) = Inr ''response''
         \<and> w_executed (snd (check_and_execute env st w q)) = w_executed w @ [q]"
  using assms
  by (simp add: check_and_execute_def run_sql_def needs_human_approval_def no_ctx_def Let_def)

lemma generate_statement_safe:
  assumes "\<forall>c t q. llm_sql env c (last_message st) t = Returned q \<longrightarrow> \<not> is_dangerous_operation q"
  shows "w_manager (snd (generate_statement env st w)) = w_manager w
         \<and> needs_human_approval (fst (generate_statement env st w)) = Inr ''response''"
proof -
  let ?tabs = "extract_table_names_from_query env (last_message st)"
  let ?r = "llm_sql env (is_create_request (lower (last_message st))) (last_message st) ?tabs"
  show ?thesis
  proof (cases "?tabs = []")
    case True
    then show ?thesis
      by (simp add: generate_statement_def Let_def needs_human_approval_def no_ctx_def)
  next
    case False
    show ?thesis
    proof (cases ?r)
      case (Raised e)
      with False show ?thesis
        by (simp add: generate_statement_def Let_def needs_human_approval_def no_ctx_def
              error_context_def)
    next
      case (Returned q)
      with assms have "\<not> is_dangerous_operation q" by blast
      from check_and_execute_safe[OF this, of env st w] False Returned show ?thesis
        by (simp add: generate_statement_def Let_def needs_human_approval_def no_ctx_def
              error_context_def)
    qed
  qed
qed

lemma response_keeps_world: "snd (run_graph env (Suc fuel) Response st w) = w"
  by (simp split: sum.splits)

lemma router_state:
  "st_human_approval (llm_router env st) = st_human_approval st
   \<and> last_message (llm_router env st) = last_message st
   \<and> st_next_action (llm_router env st) \<noteq> None"
  by (simp add: llm_router_def last_message_def Let_def split: outcome.splits)

lemma run_graph_safe:
  assumes "\<forall>c t q. llm_sql env c (last_message st) t = Returned q \<longrightarrow> \<not> is_dangerous_operation q"
    and "st_human_approval st = None"
  shows "w_manager (snd (run_graph env (Suc (Suc (Suc fuel))) Router st w)) = w_manager w"
proof -
  let ?st1 = "llm_router env st"
  from router_state[of env st] assms have safe1:
    "\<forall>c t q. llm_sql env c (last_message ?st1) t = Returned q \<longrightarrow> \<not> is_dangerous_operation q"
    and ha: "st_human_approval ?st1 = None" by simp_all
  from ha have op: "database_operation env ?st1 w = generate_statement env ?st1 w"
    by (simp add: database_operation_def)
  from generate_statement_safe[OF safe1, of w] op
  have db: "w_manager (snd (database_operation env ?st1 w)) = w_manager w"
    "needs_human_approval (fst (database_operation env ?st1 w)) = Inr ''response''" by simp_all
  have "w_manager (snd (run_graph env (Suc (Suc fuel)) Database_operation ?st1 w)) = w_manager w"
    using db by (simp add: case_prod_beta response_keeps_world del: run_graph.simps(5))
  moreover have "snd (run_graph env (Suc (Suc fuel)) Response ?st1 w) = w"
    by (rule response_keeps_world)
  ultimately show ?thesis
    by (simp add: should_continue_def Let_def split: option.splits
          del: run_graph.simps(3,5))
qed

lemma chat_safe:
  assumes "user_input \<notin> set [''__APPROVED__'', ''__DENIED__'']"
    and "\<forall>c t q. llm_sql env c user_input t = Returned q \<longrightarrow> \<not> is_dangerous_operation q"
  shows "w_manager (snd (chat env user_input thread_id w)) = w_manager w"
proof -
  obtain tid w0 where tw: "(case thread_id of None \<Rightarrow> read_uuid env w | Some t \<Rightarrow> (t, w)) = (tid, w0)"
    by (cases "(case thread_id of None \<Rightarrow> read_uuid env w | Some t \<Rightarrow> (t, w))") auto
  then have m0: "w_manager w0 = w_manager w"
    by (auto simp: read_uuid_def split: option.splits)
  let ?h = "(case map_of (w_threads w0) tid of None \<Rightarrow> [] | Some saved \<Rightarrow> st_messages saved)"
  let ?st = "initial_state ?h user_input"
  have lm: "last_message ?st = user_input" by (simp add: last_message_def initial_state_def)
  have ha: "st_human_approval ?st = None" by (simp add: initial_state_def)
  have fuel: "recursion_limit = Suc (Suc (Suc 22))" by (simp add: recursion_limit_def)
  from assms(2) lm have safe:
    "\<forall>c t q. llm_sql env c (last_message ?st) t = Returned q \<longrightarrow> \<not> is_dangerous_operation q"
    by simp
  have "w_manager (snd (run_graph env recursion_limit Router ?st w0)) = w_manager w0"
    unfolding fuel by (rule run_graph_safe[OF safe ha])
  with assms(1) tw m0 show ?thesis
    by (auto simp: chat_def Let_def split: prod.splits sum.splits)
qed

lemma gate_reached:
  "chat (agent_env ''DELETE FROM users'') ''delete every user'' (Some ''t1'') fresh_world
     = (approval_message ''DELETE'' (Some ''users'') ''DELETE FROM users'' ''a1'', w_gated)"
  by code_simp

lemma resume_executes:
  assumes "map_of (w_threads w) tid = Some st" and "st_approval_id st = Some k" and "k \<noteq> []"
    and "st_context st = Some c" and "cx_sql_executed c = Some q" and "q \<noteq> []"
    and "map_of (pending_approvals (w_manager w)) k = Some a" and "ap_status a = APPROVED"
    and "\<not> is_expired (datetime_now env (w_ticks w)) a"
  shows "snd (resume env tid w) = w\<lparr> w_ticks := Suc (w_ticks w), w_executed := w_executed w @ [q] \<rparr>"
  using assms
  by (simp add: resume_def read_clock_def get_approval_status_def approved_query_def run_sql_def
        lower_def lower_char_def Let_def split: exec_result.splits)

lemma approved_facts:
  "w_threads w_approved = [(''t1'', gated_state)]"
  "w_executed w_approved = []"
  "w_ticks w_approved = 2"
  "pending_approvals (w_manager w_approved) =
     [(''a1'', \<lparr> ap_id = ''a1'', ap_sql_query = ''DELETE FROM users'',
             ap_operation_type = ''DELETE'', ap_table_name = Some ''users'',
             ap_description = ''DELETE operation on table '' @ [CHR 0x27] @ ''users'' @ [CHR 0x27],
             ap_status = APPROVED, ap_created_at = 0, ap_expires_at = 300000000,
             ap_approved_at = Some 5000000, ap_denied_at = None, ap_approved_by = Some ''alice'' \<rparr>)]"
  by (simp_all add: w_approved_def w_gated_def approve_operation_def is_expired_def set_approval_def)

lemma chat_resume:
  "chat env ''__APPROVED__'' (Some tid) w = resume env tid w"
  by (simp add: chat_def)

lemma gated_state_facts:
  "st_approval_id gated_state = Some ''a1''"
  "st_context gated_state = Some (no_ctx\<lparr>
         cx_operation_result :=
           Some (approval_message ''DELETE'' (Some ''users'') ''DELETE FROM users'' ''a1''),
         cx_sql_executed := Some ''DELETE FROM users'',
         cx_requires_approval := Some True,
         cx_approval_id := Some ''a1'' \<rparr>)"
  by (simp_all add: gated_state_def)

lemma approved_entry:
  "map_of (pending_approvals (w_manager w_approved)) ''a1'' =
     Some \<lparr> ap_id = ''a1'', ap_sql_query = ''DELETE FROM users'',
             ap_operation_type = ''DELETE'', ap_table_name = Some ''users'',
             ap_description = ''DELETE operation on table '' @ [CHR 0x27] @ ''users'' @ [CHR 0x27],
             ap_status = APPROVED, ap_created_at = 0, ap_expires_at = 300000000,
             ap_approved_at = Some 5000000, ap_denied_at = None, ap_approved_by = Some ''alice'' \<rparr>"
  by (simp add: approved_facts)

lemma first_resume:
  "w_resumed = w_approved\<lparr> w_ticks := 3, w_executed := [''DELETE FROM users''] \<rparr>"
proof -
  have "snd (resume (agent_env ''DELETE FROM users'') ''t1'' w_approved)
      = w_approved\<lparr> w_ticks := Suc (w_ticks w_approved),
           w_executed := w_executed w_approved @ [''DELETE FROM users''] \<rparr>"
    by (rule resume_executes[OF _ gated_state_facts(1) _ gated_state_facts(2) _ _ approved_entry])
       (simp_all add: approved_facts is_expired_def agent_env_def)
  then show ?thesis by (simp add: w_resumed_def chat_resume approved_facts)
qed

lemma approved_entry2:
  "map_of (pending_approvals (w_manager w_resumed)) ''a1'' =
     Some \<lparr> ap_id = ''a1'', ap_sql_query = ''DELETE FROM users'',
             ap_operation_type = ''DELETE'', ap_table_name = Some ''users'',
             ap_description = ''DELETE operation on table '' @ [CHR 0x27] @ ''users'' @ [CHR 0x27],
             ap_status = APPROVED, ap_created_at = 0, ap_expires_at = 300000000,
             ap_approved_at = Some 5000000, ap_denied_at = None, ap_approved_by = Some ''alice'' \<rparr>"
  by (simp add: first_resume approved_facts)

lemma second_resume:
  "w_resumed_again = w_approved\<lparr> w_ticks := 4,
       w_executed := [''DELETE FROM users'', ''DELETE FROM users''] \<rparr>"
proof -
  have "snd (resume (agent_env ''DELETE FROM users'') ''t1'' w_resumed)
      = w_resumed\<lparr> w_ticks := Suc (w_ticks w_resumed),
           w_executed := w_executed w_resumed @ [''DELETE FROM users''] \<rparr>"
    by (rule resume_executes[OF _ gated_state_facts(1) _ gated_state_facts(2) _ _ approved_entry2])
       (simp_all add: first_resume approved_facts is_expired_def agent_env_def)
  then show ?thesis by (simp add: w_resumed_again_def chat_resume first_resume)
qed

text \<open>
  C1 at its failing input: a chat step on thread \<open>t1\<close> gates the statement
  \<open>DELETE FROM users\<close> behind the request \<open>a1\<close> and executes nothing; the request is
  approved; a chat step with the input \<open>__APPROVED__\<close> executes the statement; a second
  chat step with the same input on the same thread executes it again. The resume branch
  of \<open>chat\<close> only reads the thread's state, so nothing marks the decision as used.
\<close>

theorem repeated_resume_executes_again:
  "snd (chat (agent_env ''DELETE FROM users'') ''delete every user'' (Some ''t1'') fresh_world) = w_gated
   \<and> w_executed w_gated = []
   \<and> status_in (w_manager w_approved) ''a1'' = Some APPROVED
   \<and> w_executed w_resumed = [''DELETE FROM users'']
   \<and> w_executed w_resumed_again = [''DELETE FROM users'', ''DELETE FROM users'']"
  by (simp add: gate_reached first_resume second_resume status_in_def approved_facts)
     (simp add: w_gated_def)






















section \<open>Statements that are never gated\<close>

lemma human_approval_safe:
  assumes "st_context st = Some c" and "cx_sql_executed c = Some q" and "\<not> is_dangerous_operation q"
  shows "snd (human_approval env st w) = w"
  using assms by (simp add: human_approval_def Let_def)




text \<open>
  C5: a statement that begins, after optional whitespace and in any letter case, with
  \<open>SELECT\<close>, \<open>INSERT\<close>, \<open>CREATE\<close>, \<open>SHOW\<close> or \<open>DESCRIBE\<close> is not dangerous, whatever
  follows the keyword; the node \<open>human_approval\<close> creates no request for it, and a chat
  step whose statement generator returns it leaves the ledger unchanged.
\<close>

theorem safe_prefix_never_gated:
  assumes "kw \<in> set [''SELECT'', ''INSERT'', ''CREATE'', ''SHOW'', ''DESCRIBE'']"
    and "leading_keyword s kw"
  shows "\<not> is_dangerous_operation s
     \<and> (st_context st = Some c \<and> cx_sql_executed c = Some s \<longrightarrow> snd (human_approval env st w) = w)
     \<and> (user_input \<notin> set [''__APPROVED__'', ''__DENIED__'']
          \<and> (\<forall>c t. llm_sql env c user_input t = Returned s)
          \<longrightarrow> w_manager (snd (chat env user_input thread_id w)) = w_manager w)"
proof -
  from safe_keyword_not_dangerous[OF assms] have safe: "\<not> is_dangerous_operation s" .
  have "w_manager (snd (chat env user_input thread_id w)) = w_manager w"
    if "user_input \<notin> set [''__APPROVED__'', ''__DENIED__'']"
      and "\<forall>c t. llm_sql env c user_input t = Returned s"
    using that safe by (intro chat_safe) auto
  with safe human_approval_safe[of st c s env w] show ?thesis by blast
qed

theorem safe_prefix_never_gated_witness:
  "leading_keyword ''  select * from users; DROP TABLE users'' ''SELECT''
   \<and> \<not> is_dangerous_operation ''  select * from users; DROP TABLE users''
   \<and> w_manager (snd (chat (agent_env ''  select * from users; DROP TABLE users'') ''list the users''
         (Some ''t1'') fresh_world)) = simple_approval_manager"
proof -
  have h1: "''SELECT'' \<in> set [''SELECT'', ''INSERT'', ''CREATE'', ''SHOW'', ''DESCRIBE'']" by simp
  have h2: "leading_keyword ''  select * from users; DROP TABLE users'' ''SELECT''" by code_simp
  have h3: "''list the users'' \<notin> set [''__APPROVED__'', ''__DENIED__'']" by simp
  have h4: "\<forall>c t. llm_sql (agent_env ''  select * from users; DROP TABLE users'') c ''list the users'' t
      = Returned ''  select * from users; DROP TABLE users''"
    by (simp add: agent_env_def)
  from safe_prefix_never_gated[OF h1 h2, of _ _ "agent_env ''  select * from users; DROP TABLE users''"
         fresh_world "''list the users''" "Some ''t1''"] h2 h3 h4
  show ?thesis by (simp add: fresh_world_def)
qed


end
